theory Spec2Isabelle
  imports Main "HOL-Library.Word" "HOL-Library.Signed_Division"
begin

unbundle bit_operations_syntax

section \<open>Bytes and memory copies\<close>

type_synonym byte = "8 word"
type_synonym uint = "32 word"

text \<open>
  A buffer is the list of bytes addressable from its base pointer. \<open>memmove\<close> reads
  \<open>len\<close> bytes at an offset, or writes a byte string at an offset; a copy that leaves
  the buffer is an access outside the object and is reported as \<open>None\<close>.
  Offsets and lengths are C integers converted to \<open>size_t\<close>: a negative one is far
  outside every buffer.
\<close>

definition mem_read :: "byte list \<Rightarrow> int \<Rightarrow> int \<Rightarrow> byte list option" where
  "mem_read m pos len =
     (if 0 \<le> pos \<and> 0 \<le> len \<and> pos + len \<le> int (length m)
      then Some (take (nat len) (drop (nat pos) m)) else None)"

definition mem_write :: "byte list \<Rightarrow> int \<Rightarrow> byte list \<Rightarrow> byte list option" where
  "mem_write m pos bs =
     (if 0 \<le> pos \<and> pos + int (length bs) \<le> int (length m)
      then Some (take (nat pos) m @ bs @ drop (nat pos + length bs) m) else None)"

section \<open>Pipes (kernel/file.c)\<close>

text \<open>
  \<open>struct pipe\<close> of inc/file.h. \<open>buf\<close> is the memory behind the \<open>char*\<close>; the ring is
  its first \<open>buf_size\<close> bytes. \<open>head\<close> and \<open>tail\<close> are C \<open>int\<close> counters; signed overflow
  is undefined in C, so they are modelled as integers and \<open>%\<close> as the truncating
  \<open>smod\<close>. \<open>buf_size = PGSIZE - sizeof(struct pipe)\<close> depends on headers that are not
  part of the sources, so it is a parameter of both operations.
\<close>

record pipe =
  buf :: "byte list"
  head :: int
  tail :: int
  hasopenread :: bool
  hasopenwrite :: bool

text \<open>
  Outcome of a blocking kernel operation: it returns, it goes to sleep on its channel
  (and re-runs its check when woken), or it touches memory outside the buffer.
\<close>

datatype 'a outcome = Returns 'a | Sleeps | BadAccess

text \<open>
  \<open>piperead\<close>: the returned triple is the return value, the pipe afterwards and the
  bytes stored at the start of the caller's buffer.
\<close>

definition piperead :: "int \<Rightarrow> pipe \<Rightarrow> int \<Rightarrow> (int \<times> pipe \<times> byte list) outcome" where
  "piperead buf_size p n =
     (if head p = tail p then
        (if hasopenwrite p then Sleeps else Returns (0, p, []))
      else if tail p - head p < n then
        (case mem_read (buf p) (head p smod buf_size) (tail p - head p) of
           None \<Rightarrow> BadAccess
         | Some bs \<Rightarrow>
             (let num_read = tail p - head p
              in Returns (num_read, p\<lparr>head := head p + num_read\<rparr>, bs)))
      else
        (case mem_read (buf p) (head p smod buf_size) n of
           None \<Rightarrow> BadAccess
         | Some bs \<Rightarrow> Returns (n, p\<lparr>head := head p + n\<rparr>, bs)))"

text \<open>
  \<open>pipewrite\<close>: \<open>src\<close> is the caller's buffer. In the wrap-around case both copies read
  from the start of \<open>src\<close>, as the two \<open>memmove\<close> calls of the source do.
\<close>

definition pipewrite :: "int \<Rightarrow> pipe \<Rightarrow> byte list \<Rightarrow> int \<Rightarrow> (int \<times> pipe) outcome" where
  "pipewrite buf_size p src n =
     (if \<not> hasopenread p then Returns (- 1, p)
      else if tail p - head p = buf_size then Sleeps
      else if buf_size - (tail p smod buf_size) < n then
        (let start_to_head = head p smod buf_size;
             tail_to_end = buf_size - (tail p smod buf_size)
         in case mem_read src 0 tail_to_end of
              None \<Rightarrow> BadAccess
            | Some bs1 \<Rightarrow>
               (case mem_write (buf p) (tail p smod buf_size) bs1 of
                  None \<Rightarrow> BadAccess
                | Some b1 \<Rightarrow>
                   (let num_written = tail_to_end;
                        p1 = p\<lparr>buf := b1, tail := tail p + num_written\<rparr>;
                        remaining = n - tail_to_end
                    in if remaining < start_to_head then
                         (case mem_read src 0 remaining of
                            None \<Rightarrow> BadAccess
                          | Some bs2 \<Rightarrow>
                             (case mem_write (buf p1) 0 bs2 of
                                None \<Rightarrow> BadAccess
                              | Some b2 \<Rightarrow>
                                 Returns (num_written + remaining,
                                   p1\<lparr>buf := b2, tail := tail p1 + remaining\<rparr>)))
                       else
                         (case mem_read src 0 start_to_head of
                            None \<Rightarrow> BadAccess
                          | Some bs2 \<Rightarrow>
                             (case mem_write (buf p1) 0 bs2 of
                                None \<Rightarrow> BadAccess
                              | Some b2 \<Rightarrow>
                                 Returns (num_written + start_to_head,
                                   p1\<lparr>buf := b2, tail := tail p1 + start_to_head\<rparr>))))))
      else
        (case mem_read src 0 n of
           None \<Rightarrow> BadAccess
         | Some bs \<Rightarrow>
            (case mem_write (buf p) (tail p smod buf_size) bs of
               None \<Rightarrow> BadAccess
             | Some b \<Rightarrow> Returns (n, p\<lparr>buf := b, tail := tail p + n\<rparr>))))"

text \<open>The pipe invariant of the specification: \<open>tail - head\<close> lies in \<open>[0, buf_size]\<close>.\<close>

definition pipe_inv :: "int \<Rightarrow> pipe \<Rightarrow> bool" where
  "pipe_inv buf_size p \<longleftrightarrow> 0 \<le> tail p - head p \<and> tail p - head p \<le> buf_size"

text \<open>
  The bytes a ring of \<open>buf_size\<close> bytes holds at the \<open>k\<close> counter values from \<open>pos\<close> on,
  continuing at position 0 after the end of the ring.
\<close>

definition ring_bytes :: "int \<Rightarrow> byte list \<Rightarrow> int \<Rightarrow> nat \<Rightarrow> byte list" where
  "ring_bytes buf_size b pos k =
     map (\<lambda>i. b ! nat ((pos + int i) mod buf_size)) [0..<k]"

subsection \<open>Concrete pipe states\<close>

text \<open>
  With \<open>PGSIZE = 4096\<close> and a 128-byte \<open>struct pipe\<close> the ring has 3968 bytes; the
  page behind \<open>buf\<close> has 4096. The counters of the states below are those an empty pipe
  has after writing 3000 bytes, reading them and writing 2000 more (\<open>pipe_wrapped\<close>),
  and after writing and reading 3960 bytes (\<open>pipe_at_end\<close>).
\<close>

definition pipe_wrapped :: pipe where
  "pipe_wrapped = \<lparr>buf = replicate 4096 0, head = 3000, tail = 5000,
     hasopenread = True, hasopenwrite = True\<rparr>"

definition pipe_at_end :: pipe where
  "pipe_at_end = \<lparr>buf = replicate 4096 0, head = 3960, tail = 3960,
     hasopenread = True, hasopenwrite = True\<rparr>"

definition sixteen :: "byte list" where
  "sixteen = [1, 2, 3, 4, 5, 6, 7, 8, 9, 10, 11, 12, 13, 14, 15, 16]"

text \<open>
  A pipe whose 16 unread bytes \<open>1..16\<close> lie across the end of the ring: eight at
  positions 3960 to 3967, eight at positions 0 to 7. The 128 bytes of the page after the
  ring are zero.
\<close>

definition pipe_across :: pipe where
  "pipe_across = \<lparr>buf = drop 8 sixteen @ replicate 3952 0 @ take 8 sixteen @ replicate 128 0,
     head = 3960, tail = 3976, hasopenread = True, hasopenwrite = True\<rparr>"

section \<open>Page faults (kernel/trap.c)\<close>

type_synonym uint64 = "64 word"



text \<open>
  The fields of \<open>struct vregion\<close> and \<open>struct vpage_info\<close> that \<open>trap\<close> reads. The stack
  region covers the addresses from \<open>va_base - vsize\<close> up to \<open>va_base\<close>.
\<close>

record vregion =
  va_base :: uint64
  vsize :: uint64

record vpage_info =
  swapped :: bool
  is_cow :: bool
  writable :: bool

text \<open>
  \<open>va2vregion\<close> followed by \<open>va2vpage_info\<close> at the faulting address: no region, a
  region without page information, or the page information.
\<close>

datatype va_lookup = NoRegion | NoPage | Page vpage_info

text \<open>
  What the page-fault branch of \<open>trap\<close> reads: the error code, the code segment and the
  faulting address of the trap, the stack region of the current process, and the
  results of the address-space functions it calls (vspace.c and the swap and copy
  functions are not part of the sources, so their return values are inputs).
  \<open>vregionaddmap_ret base sz\<close> is the value \<open>vregionaddmap(stack, base, sz, 1, 1)\<close>
  returns, as compared with \<open>sz\<close>. The fault is taken with a current process.
\<close>

record pagefault =
  err :: uint64
  cs :: uint64
  addr :: uint64
  stack :: vregion
  lookup :: va_lookup
  swappage_copy_ret :: int
  vregionaddmap_ret :: "uint64 \<Rightarrow> uint64 \<Rightarrow> uint64"
  ppage_copy_ret :: int











section \<open>Waiting for children (kernel/proc.c)\<close>

datatype procstate = UNUSED | EMBRYO | SLEEPING | RUNNABLE | RUNNING | ZOMBIE

text \<open>
  A slot of the process table, with the fields \<open>wait\<close> touches. \<open>parent\<close> is the index of
  the slot the pointer refers to, \<open>None\<close> for a null pointer. \<open>kstack_live\<close> and
  \<open>vspace_live\<close> say whether the kernel stack page and the address space are still
  allocated.
\<close>

record proc =
  pid :: int
  state :: procstate
  parent :: "nat option"
  kstack_live :: bool
  vspace_live :: bool

text \<open>
  \<open>p->parent->pid\<close>. Slots that were never used or were freed have a null parent, and
  so has the first process; what the load through the null pointer yields is not
  determined by the sources, so it is an input: \<open>Some v\<close> when it reads the value \<open>v\<close>,
  \<open>None\<close> when it faults.
\<close>

definition parent_pid :: "proc list \<Rightarrow> int option \<Rightarrow> proc \<Rightarrow> int option" where
  "parent_pid ptable null_pid p =
     (case parent p of
        None \<Rightarrow> null_pid
      | Some j \<Rightarrow> if j < length ptable then Some (pid (ptable ! j)) else None)"

text \<open>
  The scan of \<open>findzombiechild\<close> from slot \<open>i\<close> on. The local \<open>haschild\<close> has no
  initialiser in the source: its initial value \<open>haschild0\<close> is an input. The result is
  the return value and the slot stored through \<open>pp\<close>, if any.
\<close>

fun findzombiechild_from ::
  "proc list \<Rightarrow> int option \<Rightarrow> int \<Rightarrow> nat \<Rightarrow> bool \<Rightarrow> proc list \<Rightarrow> (int \<times> nat option) outcome" where
  "findzombiechild_from ptable null_pid pid' i haschild [] =
     Returns (if \<not> haschild then - 1 else 0, None)"
| "findzombiechild_from ptable null_pid pid' i haschild (p # ps) =
     (case parent_pid ptable null_pid p of
        None \<Rightarrow> BadAccess
      | Some ppid \<Rightarrow>
          if ppid = pid' then
            (if state p = ZOMBIE then Returns (pid p, Some i)
             else findzombiechild_from ptable null_pid pid' (i + 1) True ps)
          else findzombiechild_from ptable null_pid pid' (i + 1) haschild ps)"

definition findzombiechild ::
  "proc list \<Rightarrow> int option \<Rightarrow> bool \<Rightarrow> int \<Rightarrow> (int \<times> nat option) outcome" where
  "findzombiechild ptable null_pid haschild0 pid' =
     findzombiechild_from ptable null_pid pid' 0 haschild0 ptable"

definition freeproc :: "proc list \<Rightarrow> nat \<Rightarrow> proc list" where
  "freeproc ptable i =
     ptable[i := (ptable ! i)\<lparr>state := UNUSED, parent := None,
                               kstack_live := False, vspace_live := False\<rparr>]"

text \<open>
  One pass of \<open>wait\<close> for the process with pid \<open>mypid\<close>: it returns (with the process
  table afterwards), or it sleeps on its pid and runs the pass again when woken.
\<close>

definition wait :: "proc list \<Rightarrow> int option \<Rightarrow> bool \<Rightarrow> int \<Rightarrow> (int \<times> proc list) outcome" where
  "wait ptable null_pid haschild0 mypid =
     (case findzombiechild ptable null_pid haschild0 mypid of
        Returns (pid', pp) \<Rightarrow>
          if pid' \<le> 0 then (if pid' = - 1 then Returns (- 1, ptable) else Sleeps)
          else (case pp of
                  Some i \<Rightarrow> Returns (pid', freeproc ptable i)
                | None \<Rightarrow> BadAccess)
      | Sleeps \<Rightarrow> Sleeps
      | BadAccess \<Rightarrow> BadAccess)"

text \<open>
  A table with the first process (pid 1, null parent) and one child of it (pid 2) that
  has no children of its own.
\<close>

definition two_procs :: "proc list" where
  "two_procs =
     [\<lparr>pid = 1, state = SLEEPING, parent = None, kstack_live = True, vspace_live = True\<rparr>,
      \<lparr>pid = 2, state = RUNNING, parent = Some 0, kstack_live = True, vspace_live = True\<rparr>]"

section \<open>Disk blocks and the buffer cache\<close>

definition BSIZE :: nat where
  "BSIZE = 512"

text \<open>
  \<open>memmove(obj + k, src, length src)\<close> on the bytes of an object that is large enough.
\<close>

definition blk_put :: "byte list \<Rightarrow> nat \<Rightarrow> byte list \<Rightarrow> byte list" where
  "blk_put d k bs = take k d @ bs @ drop (k + length bs) d"

text \<open>Little-endian loads and stores of \<open>short\<close> and \<open>uint\<close> fields (x86-64).\<close>

definition rd16 :: "byte list \<Rightarrow> nat \<Rightarrow> 16 word" where
  "rd16 m k = ucast (m ! k) OR push_bit 8 (ucast (m ! (k + 1)))"

definition rd32 :: "byte list \<Rightarrow> nat \<Rightarrow> uint" where
  "rd32 m k = ucast (m ! k) OR push_bit 8 (ucast (m ! (k + 1)))
     OR push_bit 16 (ucast (m ! (k + 2))) OR push_bit 24 (ucast (m ! (k + 3)))"

definition wr16 :: "16 word \<Rightarrow> byte list" where
  "wr16 w = [ucast w, ucast (drop_bit 8 w)]"

definition wr32 :: "uint \<Rightarrow> byte list" where
  "wr32 w = [ucast w, ucast (drop_bit 8 w), ucast (drop_bit 16 w), ucast (drop_bit 24 w)]"

text \<open>\<open>struct superblock\<close> of inc/fs.h (six \<open>uint\<close> fields, read from block 1).\<close>

record superblock =
  sb_size :: uint
  sb_nblocks :: uint
  bmapstart :: uint
  inodestart :: uint
  swapstart :: uint
  logstart :: uint

text \<open>\<open>struct extent\<close> and the in-memory \<open>struct inode\<close> of inc/file.h.\<close>

record extent =
  startblkno :: uint
  nblocks :: uint

record inode =
  dev :: uint
  inum :: uint
  ref :: int
  valid :: int
  locked :: bool
  itype :: "16 word"
  devid :: "16 word"
  isize :: uint
  data :: "extent list"

text \<open>
  What is observed of a run: the start and the end of a log transaction and every block
  written to the device, with the bytes written.
\<close>

datatype event = TxBegin | TxCommit | Bwrite uint "byte list"

text \<open>
  The state of the file system: the device, the block cache, the superblock \<open>sb\<close>, the
  log lock, the inode file \<open>icache.inodefile\<close>, and the events so far.
  The kernel runs with one device, so blocks are named by their number alone.

  Modelled from the spec: the block cache (bio.c is not part of the sources). \<open>bread\<close>
  returns the buffer of a block, \<open>bwrite\<close> syncs the buffer to the device, and the
  cache coalesces repeated reads: a buffer that was modified is found again with its
  modified contents. \<open>cache\<close> holds the contents of the buffers that were modified; any
  other buffer holds what the device holds. Buffer locks are not modelled.
\<close>

record fs_state =
  disk :: "uint \<Rightarrow> byte list"
  cache :: "uint \<Rightarrow> byte list option"
  sb :: superblock
  loglock :: bool
  inodefile :: inode
  trace :: "event list"

definition bread :: "fs_state \<Rightarrow> uint \<Rightarrow> byte list" where
  "bread st b = (case cache st b of Some d \<Rightarrow> d | None \<Rightarrow> disk st b)"

text \<open>The effect of a store through \<open>buf->data\<close> on the buffer of block \<open>b\<close>.\<close>

definition buf_set :: "fs_state \<Rightarrow> uint \<Rightarrow> byte list \<Rightarrow> fs_state" where
  "buf_set st b d = st\<lparr>cache := (cache st)(b \<mapsto> d)\<rparr>"

definition bwrite :: "fs_state \<Rightarrow> uint \<Rightarrow> fs_state" where
  "bwrite st b =
     st\<lparr>disk := (disk st)(b := bread st b), trace := trace st @ [Bwrite b (bread st b)]\<rparr>"

text \<open>
  How a file-system operation fails: a kernel panic, an array index or a copy outside
  its object, waiting for a lock that the caller itself holds, or a device inode (the
  device table is outside the model).
\<close>

datatype fs_fail = Panic string | OutOfRange string | Uninitialised | Blocks | ToDevice

section \<open>The redo log (kernel/fs.c)\<close>

text \<open>
  \<open>struct log_meta\<close> is kept as its 84 bytes: \<open>commited\<close> at offset 0, \<open>nchanges\<close> at
  offset 4 and \<open>blocknos[i]\<close> at offset \<open>8 + 4 * i\<close>. The code copies it to and from the
  start of block \<open>sb.logstart\<close> with \<open>memmove\<close>.
\<close>

definition LOGMETA :: nat where
  "LOGMETA = 84"

definition commited :: "byte list \<Rightarrow> 16 word" where
  "commited lg = rd16 lg 0"

definition nchanges :: "byte list \<Rightarrow> uint" where
  "nchanges lg = rd32 lg 4"

definition blocknos :: "byte list \<Rightarrow> nat \<Rightarrow> uint" where
  "blocknos lg i = rd32 lg (8 + 4 * i)"

definition set_commited :: "byte list \<Rightarrow> 16 word \<Rightarrow> byte list" where
  "set_commited lg v = blk_put lg 0 (wr16 v)"

definition set_nchanges :: "byte list \<Rightarrow> uint \<Rightarrow> byte list" where
  "set_nchanges lg v = blk_put lg 4 (wr32 v)"

definition set_blockno :: "byte list \<Rightarrow> nat \<Rightarrow> uint \<Rightarrow> byte list" where
  "set_blockno lg i v = blk_put lg (8 + 4 * i) (wr32 v)"

text \<open>The log metadata as read from the buffer of block \<open>sb.logstart\<close>.\<close>

definition read_log_meta :: "fs_state \<Rightarrow> byte list" where
  "read_log_meta st = take LOGMETA (bread st (logstart (sb st)))"

text \<open>Store \<open>sizeof(struct log_meta)\<close> bytes at the start of the log block and sync it.\<close>

definition write_log_meta :: "fs_state \<Rightarrow> byte list \<Rightarrow> fs_state" where
  "write_log_meta st lg =
     (let b = logstart (sb st)
      in bwrite (buf_set st b (blk_put (bread st b) 0 (take LOGMETA lg))) b)"

definition begin_tx :: "fs_state \<Rightarrow> fs_fail + fs_state" where
  "begin_tx st =
     (if loglock st then Inl Blocks
      else Inr (write_log_meta (st\<lparr>loglock := True, trace := trace st @ [TxBegin]\<rparr>)
                  (replicate LOGMETA 0)))"

text \<open>
  \<open>log_write(b)\<close> for the buffer of block \<open>b\<close>. Index 19 and above is outside
  \<open>blocknos\<close>.
\<close>

definition log_write :: "fs_state \<Rightarrow> uint \<Rightarrow> fs_fail + fs_state" where
  "log_write st b =
     (if \<not> loglock st then Inl (Panic ''not holding lock'')
      else
        (let lg = read_log_meta st
         in if \<not> unat (nchanges lg) < 19 then Inl (OutOfRange ''blocknos'')
            else
              (let lg1 = set_blockno lg (unat (nchanges lg)) b;
                   lg2 = set_nchanges lg1 (nchanges lg1 + 1);
                   shadow = logstart (sb st) + nchanges lg2;
                   st1 = bwrite (buf_set st shadow
                           (blk_put (bread st shadow) 0 (take BSIZE (bread st b)))) shadow
               in Inr (write_log_meta st1 lg2))))"

text \<open>
  The copy loop of \<open>commit_tx\<close> from index \<open>i\<close> on: \<open>sizeof(struct log_meta)\<close> bytes of
  the shadow block are copied into the buffer of the home block, which is then synced.
\<close>

function commit_copy :: "fs_state \<Rightarrow> byte list \<Rightarrow> nat \<Rightarrow> fs_fail + fs_state" where
  "commit_copy st lg i =
     (if i < unat (nchanges lg) then
        (if \<not> i < 19 then Inl (OutOfRange ''blocknos'')
         else
           (let block_no = blocknos lg i;
                log_data = bread st (logstart (sb st) + 1 + of_nat i);
                st1 = bwrite (buf_set st block_no
                        (blk_put (bread st block_no) 0 (take LOGMETA log_data))) block_no
            in commit_copy st1 lg (i + 1)))
      else Inr st)"
  by pat_completeness auto
termination
  by (relation "measure (\<lambda>(st, lg, i). unat (nchanges lg) - i)") auto

declare commit_copy.simps [simp del]

definition commit_tx :: "fs_state \<Rightarrow> fs_fail + fs_state" where
  "commit_tx st =
     (if \<not> loglock st then Inl (Panic ''not holding lock'')
      else
        (let lg = set_commited (read_log_meta st) 1;
             st1 = write_log_meta st lg
         in case commit_copy st1 lg 0 of
              Inl e \<Rightarrow> Inl e
            | Inr st2 \<Rightarrow>
                (let st3 = write_log_meta st2 (replicate LOGMETA 0)
                 in Inr (st3\<lparr>loglock := False, trace := trace st3 @ [TxCommit]\<rparr>))))"

section \<open>Boot recovery (kernel/fs.c)\<close>

definition readsb :: "fs_state \<Rightarrow> superblock" where
  "readsb st =
     (let d = bread st 1
      in \<lparr>sb_size = rd32 d 0, sb_nblocks = rd32 d 4, bmapstart = rd32 d 8,
          inodestart = rd32 d 12, swapstart = rd32 d 16, logstart = rd32 d 20\<rparr>)"

text \<open>
  \<open>struct dinode\<close> of inc/fs.h in a block: \<open>type\<close> at offset 0, \<open>devid\<close> at 2, \<open>size\<close> at
  4, the six extents at \<open>8 + 8 * i\<close>, then padding up to 64 bytes.
\<close>

definition rd_extent :: "byte list \<Rightarrow> nat \<Rightarrow> extent" where
  "rd_extent d k = \<lparr>startblkno = rd32 d k, nblocks = rd32 d (k + 4)\<rparr>"

definition rd_extents :: "byte list \<Rightarrow> nat \<Rightarrow> extent list" where
  "rd_extents d k = map (\<lambda>i. rd_extent d (k + 8 + 8 * i)) [0..<6]"

definition INODEFILEINO :: uint where
  "INODEFILEINO = 0"

definition init_inodefile :: "fs_state \<Rightarrow> uint \<Rightarrow> fs_state" where
  "init_inodefile st dev' =
     (let d = bread st (inodestart (sb st))
      in st\<lparr>inodefile := (inodefile st)\<lparr>inum := INODEFILEINO, dev := dev',
              itype := rd16 d 0, valid := 1, ref := 1, devid := rd16 d 2,
              isize := rd32 d 4, data := rd_extents d 0\<rparr>\<rparr>)"

text \<open>The replay loop of \<open>iinit\<close> from index \<open>j\<close> on: whole blocks are copied.\<close>

function replay :: "fs_state \<Rightarrow> byte list \<Rightarrow> nat \<Rightarrow> fs_fail + fs_state" where
  "replay st lg j =
     (if j < unat (nchanges lg) then
        (if \<not> j < 19 then Inl (OutOfRange ''blocknos'')
         else
           (let block_no = blocknos lg j;
                log_data = bread st (logstart (sb st) + 1 + of_nat j);
                st1 = bwrite (buf_set st block_no
                        (blk_put (bread st block_no) 0 (take BSIZE log_data))) block_no
            in replay st1 lg (j + 1)))
      else Inr st)"
  by pat_completeness auto
termination
  by (relation "measure (\<lambda>(st, lg, j). unat (nchanges lg) - j)") auto

declare replay.simps [simp del]

text \<open>
  \<open>iinit\<close>. After a replay the code clears its local \<open>log\<close> and copies \<open>BSIZE\<close> bytes
  from it into the log block: the 84 bytes of the structure and the 428 bytes \<open>after\<close>
  that follow it on the stack.
\<close>

definition iinit :: "byte list \<Rightarrow> fs_state \<Rightarrow> uint \<Rightarrow> fs_fail + fs_state" where
  "iinit after st dev' =
     (let st1 = init_inodefile ((st\<lparr>inodefile := (inodefile st)\<lparr>locked := False\<rparr>\<rparr>)
                                   \<lparr>sb := readsb st\<rparr>) dev';
          st2 = st1\<lparr>loglock := False\<rparr>;
          lg = read_log_meta st2
      in if commited lg = 1 then
           (case replay st2 lg 0 of
              Inl e \<Rightarrow> Inl e
            | Inr st3 \<Rightarrow>
                (let b = logstart (sb st3)
                 in Inr (bwrite (buf_set st3 b
                      (blk_put (bread st3 b) 0 (take BSIZE (replicate LOGMETA 0 @ after)))) b)))
         else Inr st2)"

text \<open>The log metadata that \<open>iinit\<close> finds on a device whose superblock is in block 1.\<close>

definition boot_log :: "fs_state \<Rightarrow> byte list" where
  "boot_log st = take LOGMETA (bread st (logstart (readsb st)))"

text \<open>
  A log is well formed when it records at most 19 changes, its home blocks lie outside
  the log area (metadata block \<open>L\<close> and shadow blocks), and the buffers involved hold
  whole blocks.
\<close>

definition log_ok :: "fs_state \<Rightarrow> uint \<Rightarrow> byte list \<Rightarrow> bool" where
  "log_ok st L lg \<longleftrightarrow>
     unat (nchanges lg) \<le> 19 \<and>
     list_all (\<lambda>j. blocknos lg j \<noteq> L
                 \<and> length (bread st (blocknos lg j)) = BSIZE
                 \<and> length (bread st (L + 1 + of_nat j)) = BSIZE
                 \<and> list_all (\<lambda>k. blocknos lg j \<noteq> L + 1 + of_nat k) [0..<unat (nchanges lg)])
       [0..<unat (nchanges lg)]"

section \<open>A small disk image\<close>

text \<open>
  Block 1 is the superblock: the bitmap is block 2, the inode file starts at block 3, the
  log is at blocks 100 to 119. Block 3 holds three inodes: the inode file itself (192
  bytes in blocks 3 to 34), the root directory (blocks 35 to 66) and an empty regular
  file (inode 2, blocks 67 to 98). The bitmap marks the first 160 blocks as used.
\<close>

definition img_sb :: superblock where
  "img_sb = \<lparr>sb_size = 1000, sb_nblocks = 840, bmapstart = 2, inodestart = 3,
     swapstart = 120, logstart = 100\<rparr>"

definition wr_superblock :: "superblock \<Rightarrow> byte list" where
  "wr_superblock s = wr32 (sb_size s) @ wr32 (sb_nblocks s) @ wr32 (bmapstart s)
     @ wr32 (inodestart s) @ wr32 (swapstart s) @ wr32 (logstart s)"

definition img_dinode :: "16 word \<Rightarrow> uint \<Rightarrow> uint \<Rightarrow> byte list" where
  "img_dinode ty sz start = wr16 ty @ wr16 0 @ wr32 sz @ wr32 start @ wr32 32
     @ replicate 48 0"

definition img_disk :: "uint \<Rightarrow> byte list" where
  "img_disk = (\<lambda>b. replicate 512 0)
     (1 := wr_superblock img_sb @ replicate 488 0,
      2 := replicate 20 0xFF @ replicate 492 0,
      3 := img_dinode 2 192 3 @ img_dinode 1 0 35 @ img_dinode 2 0 67 @ replicate 320 0)"

definition img_inodefile :: inode where
  "img_inodefile = \<lparr>dev = 1, inum = 0, ref = 1, valid = 1, locked = False, itype = 2,
     devid = 0, isize = 192, data = \<lparr>startblkno = 3, nblocks = 32\<rparr>
       # replicate 5 \<lparr>startblkno = 0, nblocks = 0\<rparr>\<rparr>"

text \<open>The state after boot on this image: nothing cached, no transaction running.\<close>

definition img_state :: fs_state where
  "img_state = \<lparr>disk = img_disk, cache = Map.empty, sb = img_sb, loglock = False,
     inodefile = img_inodefile, trace = []\<rparr>"

text \<open>
  A log with one change on the device: block 200 (holding \<open>0x11\<close> bytes) is to receive
  the contents of the shadow block 101 (\<open>0xAA\<close> bytes). \<open>c\<close> is the commit flag.
\<close>

definition one_change :: "16 word \<Rightarrow> byte list" where
  "one_change c =
     set_commited (set_nchanges (set_blockno (replicate 512 0) 0 200) 1) c"

definition logged_disk :: "16 word \<Rightarrow> uint \<Rightarrow> byte list" where
  "logged_disk c = img_disk(100 := one_change c, 101 := replicate 512 0xAA,
     200 := replicate 512 0x11)"



text \<open>The device as a crash leaves it, before and after the commit record was written.\<close>

definition crashed_open :: fs_state where
  "crashed_open = img_state\<lparr>disk := logged_disk 0\<rparr>"

definition crashed_committed :: fs_state where
  "crashed_committed = img_state\<lparr>disk := logged_disk 1\<rparr>"

section \<open>Reading a file (kernel/fs.c)\<close>

text \<open>
  Modelled from the spec: inodes are directories, files or devices; stat.h, which numbers
  the types, is not part of the sources. Only the device type matters to \<open>readi\<close> and
  \<open>writei\<close>.
\<close>

definition T_DEV :: "16 word" where
  "T_DEV = 3"

text \<open>
  The head of the loop body of \<open>readi\<close>: the two assertions and the move to the next
  extent. \<open>extno\<close> indexes \<open>ip->data\<close>, an array of six extents.
\<close>

definition readi_cursor :: "inode \<Rightarrow> nat \<Rightarrow> uint \<Rightarrow> fs_fail + (nat \<times> uint)" where
  "readi_cursor ip extno extoff =
     (if \<not> extno < 6 then Inl (OutOfRange ''data'')
      else if \<not> nblocks (data ip ! extno) > 0 then Inl (Panic ''assert extent->nblocks > 0'')
      else if extoff \<ge> nblocks (data ip ! extno) then
        (if \<not> extno < 5 then Inl (Panic ''assert extno < 5'') else Inr (extno + 1, 0))
      else Inr (extno, extoff))"

text \<open>
  The loop of \<open>readi\<close>, with \<open>BSIZE\<close> written as 512. \<open>dst\<close> collects the bytes stored
  through the destination pointer so far.
\<close>

function readi_loop ::
  "fs_state \<Rightarrow> inode \<Rightarrow> uint \<Rightarrow> nat \<Rightarrow> uint \<Rightarrow> uint \<Rightarrow> uint \<Rightarrow> uint \<Rightarrow> byte list
   \<Rightarrow> fs_fail + byte list" where
  "readi_loop st ip n extno extoff foff off tot dst =
     (if tot < n then
        (case readi_cursor ip extno extoff of
           Inl e \<Rightarrow> Inl e
         | Inr (extno', extoff') \<Rightarrow>
             if foff \<ge> off div 512 then
               (let m = min (n - tot) (512 - off mod 512)
                in case mem_read (bread st (startblkno (data ip ! extno') + extoff'))
                          (uint (off mod 512)) (uint m) of
                     None \<Rightarrow> Inl (OutOfRange ''buf'')
                   | Some bs \<Rightarrow>
                       readi_loop st ip n extno' (extoff' + 1) (foff + 1) (off + m) (tot + m)
                         (dst @ bs))
             else readi_loop st ip n extno' (extoff' + 1) (foff + 1) off tot dst)
      else Inr dst)"
  by pat_completeness auto
termination
proof (relation "measures [\<lambda>(st, ip, n, extno, extoff, foff, off, tot, dst). unat n - unat tot,
                           \<lambda>(st, ip, n, extno, extoff, foff, off, tot, dst). unat (off div 512) - unat foff]",
       goal_cases)
  case 1
  show ?case by simp
next
  case (2 st ip n extno extoff foff off tot dst)
  then have lt: "tot < n" by simp
  have "unat n - unat (tot + min (n - tot) (512 - off mod 512)) < unat n - unat tot"
  proof -
  have m: "unat (off mod 512) < 512"
    by (simp add: unat_mod) 
  have s: "unat (512 - off mod 512) = 512 - unat (off mod 512)"
    using m by (subst unat_sub) (simp_all add: word_le_nat_alt)
  have d: "unat (n - tot) = unat n - unat tot"
    using lt by (subst unat_sub) (simp_all add: word_le_nat_alt word_less_nat_alt)
  have tn: "unat tot < unat n" using lt by (simp add: word_less_nat_alt)
  let ?m = "min (n - tot) (512 - off mod 512)"
  have um: "unat ?m = min (unat n - unat tot) (512 - unat (off mod 512))"
    by (simp add: min_def word_le_nat_alt s d)
  have bn: "unat n < 2 ^ 32" using unsigned_less[of n, where ?'a = nat] by simp
  have "unat tot + unat ?m < 2 ^ 32" using um tn bn by simp
  then have "unat (tot + ?m) = unat tot + unat ?m"
    by (subst unat_add_lem[THEN iffD1]) simp_all
  moreover have "0 < unat ?m" using um tn m by simp
  ultimately show ?thesis using tn um by arith
  qed
  with 2 show ?case by simp
next
  case (3 st ip n extno extoff foff off tot dst)
  then have "foff < off div 512" by simp
  then have "unat (foff + 1) = unat foff + 1" "unat foff < unat (off div 512)"
    by unat_arith+
  then have "unat (off div 512) - unat (foff + 1) < unat (off div 512) - unat foff"
    by arith
  then show ?case by simp
qed


declare readi_loop.simps [simp del]

text \<open>
  \<open>readi\<close> returns its \<open>uint\<close> count converted to \<open>int\<close>, and the bytes stored at
  \<open>dst\<close>.
\<close>

definition readi :: "fs_state \<Rightarrow> inode \<Rightarrow> uint \<Rightarrow> uint \<Rightarrow> fs_fail + (int \<times> byte list)" where
  "readi st ip off n =
     (if \<not> locked ip then Inl (Panic ''not holding lock'')
      else if itype ip = T_DEV then Inl ToDevice
      else if off > isize ip \<or> off + n < off then Inr (- 1, [])
      else
        (let n' = (if off + n > isize ip then isize ip - off else n)
         in case readi_loop st ip n' 0 0 0 off 0 [] of
              Inl e \<Rightarrow> Inl e
            | Inr dst \<Rightarrow> Inr (sint n', dst)))"

text \<open>
  The contents of a file: the blocks of its extents, in order, up to the first empty
  extent, and the bytes of those blocks as the buffer cache holds them.
\<close>

definition extent_blocks :: "extent \<Rightarrow> uint list" where
  "extent_blocks e = map (\<lambda>k. startblkno e + of_nat k) [0..<unat (nblocks e)]"

definition file_blocks :: "inode \<Rightarrow> uint list" where
  "file_blocks ip = concat (map extent_blocks (takeWhile (\<lambda>e. nblocks e \<noteq> 0) (data ip)))"

definition file_bytes :: "fs_state \<Rightarrow> inode \<Rightarrow> byte list" where
  "file_bytes st ip = concat (map (bread st) (file_blocks ip))"

text \<open>
  An inode is well formed when it has its six extent slots, its size fits in its blocks,
  and the buffers of its blocks hold whole blocks.
\<close>

definition inode_ok :: "fs_state \<Rightarrow> inode \<Rightarrow> bool" where
  "inode_ok st ip \<longleftrightarrow>
     length (data ip) = 6 \<and> unat (isize ip) \<le> BSIZE * length (file_blocks ip) \<and>
     list_all (\<lambda>b. length (bread st b) = BSIZE) (file_blocks ip)"

text \<open>
  The position of the extent walk: \<open>foff\<close> blocks of the file lie before block
  \<open>extoff\<close> of extent \<open>extno\<close>.
\<close>

definition blocks_before :: "inode \<Rightarrow> nat \<Rightarrow> nat" where
  "blocks_before ip x = sum_list (map (\<lambda>e. unat (nblocks e)) (take x (data ip)))"

definition cursor_at :: "inode \<Rightarrow> nat \<Rightarrow> uint \<Rightarrow> uint \<Rightarrow> bool" where
  "cursor_at ip extno extoff foff \<longleftrightarrow>
     extno < 6 \<and> (\<forall>e<extno. nblocks (data ip ! e) \<noteq> 0) \<and>
     unat extoff \<le> unat (nblocks (data ip ! extno)) \<and>
     unat foff = blocks_before ip extno + unat extoff"


text \<open>An inode with one block (block 3 of the image) and 192 bytes, locked by the caller.\<close>

definition one_block_file :: inode where
  "one_block_file = \<lparr>dev = 1, inum = 0, ref = 1, valid = 1, locked = True, itype = 2,
     devid = 0, isize = 192, data = \<lparr>startblkno = 3, nblocks = 1\<rparr>
       # replicate 5 \<lparr>startblkno = 0, nblocks = 0\<rparr>\<rparr>"


section \<open>Writing a file (kernel/fs.c)\<close>

text \<open>
  What the sources leave open: the constant \<open>FSSIZE\<close> of param.h, and the contents of the
  eight padding bytes of the local \<open>struct dinode dip\<close>, which \<open>writei\<close> never sets.
\<close>

record env =
  FSSIZE :: uint
  dip_pad :: "byte list"

text \<open>Bitmap bits per block, \<open>BSIZE * 8\<close>.\<close>

definition BPB :: uint where
  "BPB = 4096"

text \<open>
  The scan of \<open>balloc\<close> from bitmap block \<open>blockno\<close> on: the first \<open>int\<close> of the block
  that is 0 is set to -1, the block is logged, and the number of the first block of the
  extent is returned after the two assertions.
\<close>

function balloc_from :: "env \<Rightarrow> fs_state \<Rightarrow> uint \<Rightarrow> fs_fail + (uint \<times> fs_state)" where
  "balloc_from ev st blockno =
     (if blockno < inodestart (sb st) then
        (let d = bread st blockno
         in case find (\<lambda>i. rd32 d (4 * i) = 0) [0..<BSIZE div 4] of
              Some i \<Rightarrow>
                (case log_write (buf_set st blockno (blk_put d (4 * i) (wr32 (- 1)))) blockno of
                   Inl e \<Rightarrow> Inl e
                 | Inr st1 \<Rightarrow>
                     (let first = (blockno - bmapstart (sb st)) * BPB + of_nat i * 32
                      in if \<not> first > inodestart (sb st)
                         then Inl (Panic ''assert addr > sb.inodestart'')
                         else if \<not> first < FSSIZE ev
                         then Inl (Panic ''assert addr < FSSIZE'')
                         else Inr (first, st1)))
            | None \<Rightarrow> balloc_from ev st (blockno + 1))
      else Inl (Panic ''No more free space in extent region''))"
  by pat_completeness auto
termination
proof (relation "measure (\<lambda>(ev, st, blockno). unat (inodestart (sb st)) - unat blockno)",
       goal_cases)
  case 1
  show ?case by simp
next
  case (2 ev st blockno d)
  then have "blockno < inodestart (sb st)" by simp
  then have "unat (blockno + 1) = unat blockno + 1" "unat blockno < unat (inodestart (sb st))"
    by unat_arith+
  then have "unat (inodestart (sb st)) - unat (blockno + 1)
               < unat (inodestart (sb st)) - unat blockno"
    by arith
  then show ?case by simp
qed

declare balloc_from.simps [simp del]

definition balloc :: "env \<Rightarrow> fs_state \<Rightarrow> fs_fail + (uint \<times> fs_state)" where
  "balloc ev st = balloc_from ev st (inodestart (sb st) div BPB + bmapstart (sb st))"

text \<open>
  The part of the loop body of \<open>writei\<close> that writes one block: allocate the extent if it
  is empty, copy \<open>m\<close> bytes of the source into the buffer of the block, log the buffer
  and update the size. The source pointer has advanced by \<open>tot\<close>.
\<close>

definition write_block ::
  "env \<Rightarrow> fs_state \<Rightarrow> inode \<Rightarrow> nat \<Rightarrow> uint \<Rightarrow> byte list \<Rightarrow> uint \<Rightarrow> uint \<Rightarrow> uint \<Rightarrow> uint
   \<Rightarrow> fs_fail + (inode \<times> fs_state)" where
  "write_block ev st ip extno extoff src off tot m oldoff =
     (case (if nblocks (data ip ! extno) = 0 then
              (if extno = 5 then Inl (Panic ''Run out of space for a file'')
               else (case balloc ev st of
                       Inl e \<Rightarrow> Inl e
                     | Inr (first, st') \<Rightarrow>
                         Inr (ip\<lparr>data := (data ip)[extno := \<lparr>startblkno = first, nblocks = 32\<rparr>]\<rparr>,
                              st')))
            else Inr (ip, st)) of
        Inl e \<Rightarrow> Inl e
      | Inr (ip1, st1) \<Rightarrow>
          (let b = startblkno (data ip1 ! extno) + extoff
           in case mem_read src (uint tot) (uint m) of
                None \<Rightarrow> Inl (OutOfRange ''src'')
              | Some bs \<Rightarrow>
                  (case log_write (buf_set st1 b (blk_put (bread st1 b) (unat (off mod 512)) bs)) b of
                     Inl e \<Rightarrow> Inl e
                   | Inr st2 \<Rightarrow>
                       Inr (if oldoff + (tot + m) > isize ip1
                            then ip1\<lparr>isize := oldoff + (tot + m)\<rparr> else ip1, st2))))"

text \<open>The head of the loop body of \<open>writei\<close>: the move to the next extent.\<close>

definition writei_cursor :: "inode \<Rightarrow> nat \<Rightarrow> uint \<Rightarrow> nat \<times> uint" where
  "writei_cursor ip extno extoff =
     (if extoff \<ge> nblocks (data ip ! extno) \<and> nblocks (data ip ! extno) \<noteq> 0
      then (extno + 1, 0) else (extno, extoff))"

text \<open>
  The body of the loop of \<open>writei\<close>, with \<open>BSIZE\<close> written as 512. \<open>wb\<close> is the
  write-back of the inode at the end of the body, which differs between the inode file
  and any other inode; \<open>log_started\<close> is the value of \<open>holdingsleep(&loglock)\<close> when
  \<open>writei\<close> was entered. The result is the state and the inode afterwards, the extent
  position, and the new values of \<open>off\<close> and \<open>tot\<close>.
\<close>

definition writei_step ::
  "(fs_state \<Rightarrow> inode \<Rightarrow> fs_fail + fs_state) \<Rightarrow> env \<Rightarrow> bool \<Rightarrow> byte list \<Rightarrow> uint \<Rightarrow> uint
   \<Rightarrow> fs_state \<Rightarrow> inode \<Rightarrow> nat \<Rightarrow> uint \<Rightarrow> uint \<Rightarrow> uint \<Rightarrow> uint
   \<Rightarrow> fs_fail + (fs_state \<times> inode \<times> nat \<times> uint \<times> uint \<times> uint)" where
  "writei_step wb ev log_started src n oldoff st ip extno extoff foff off tot =
     (if \<not> extno < 6 then Inl (OutOfRange ''data'')
      else
        (case writei_cursor ip extno extoff of
           (extno1, extoff1) \<Rightarrow>
             if foff \<ge> off div 512 then
               (case (if log_started then Inr st else begin_tx st) of
                  Inl e \<Rightarrow> Inl e
                | Inr st1 \<Rightarrow>
                    if \<not> extno1 < 6 then Inl (OutOfRange ''data'')
                    else
                      (let m = min (n - tot) (512 - off mod 512)
                       in case write_block ev st1 ip extno1 extoff1 src off tot m oldoff of
                            Inl e \<Rightarrow> Inl e
                          | Inr (ip2, st2) \<Rightarrow>
                              (case wb st2 ip2 of
                                 Inl e \<Rightarrow> Inl e
                               | Inr st3 \<Rightarrow>
                                   (case (if log_started then Inr st3 else commit_tx st3) of
                                      Inl e \<Rightarrow> Inl e
                                    | Inr st4 \<Rightarrow>
                                        Inr (st4, ip2, extno1, extoff1, off + m, tot + m)))))
             else Inr (st, ip, extno1, extoff1, off, tot)))"

text \<open>The loop of \<open>writei\<close>: \<open>for (tot = 0; tot < n; extoff++, foff++)\<close>.\<close>

function writei_loop ::
  "(fs_state \<Rightarrow> inode \<Rightarrow> fs_fail + fs_state) \<Rightarrow> env \<Rightarrow> bool \<Rightarrow> byte list \<Rightarrow> uint \<Rightarrow> uint
   \<Rightarrow> fs_state \<Rightarrow> inode \<Rightarrow> nat \<Rightarrow> uint \<Rightarrow> uint \<Rightarrow> uint \<Rightarrow> uint
   \<Rightarrow> fs_fail + (inode \<times> fs_state)" where
  "writei_loop wb ev log_started src n oldoff st ip extno extoff foff off tot =
     (if tot < n then
        (case writei_step wb ev log_started src n oldoff st ip extno extoff foff off tot of
           Inl e \<Rightarrow> Inl e
         | Inr (st', ip', extno1, extoff1, off', tot') \<Rightarrow>
             writei_loop wb ev log_started src n oldoff st' ip' extno1 (extoff1 + 1) (foff + 1)
               off' tot')
      else Inr (ip, st))"
  by pat_completeness auto
termination
proof (relation "measures
    [\<lambda>(wb, ev, ls, src, n, oldoff, st, ip, extno, extoff, foff, off, tot). unat n - unat tot,
     \<lambda>(wb, ev, ls, src, n, oldoff, st, ip, extno, extoff, foff, off, tot).
        unat (off div 512) - unat foff]", goal_cases)
  case 1
  show ?case by simp
next
  case (2 wb ev ls src n oldoff st ip extno extoff foff off tot r st' x ip' y extno1 z extoff1 w
        off' tot')
  then have lt: "tot < n"
    and step: "writei_step wb ev ls src n oldoff st ip extno extoff foff off tot
                 = Inr (st', ip', extno1, extoff1, off', tot')"
    by simp_all
  have tn: "unat tot < unat n" using lt by (simp add: word_less_nat_alt)
  from step have
    "(off div 512 \<le> foff \<and> off' = off + min (n - tot) (512 - off mod 512)
        \<and> tot' = tot + min (n - tot) (512 - off mod 512))
     \<or> (\<not> off div 512 \<le> foff \<and> off' = off \<and> tot' = tot)"
    by (auto simp: writei_step_def Let_def split: if_splits prod.splits sum.splits)
  then show ?case
  proof
    assume w: "off div 512 \<le> foff \<and> off' = off + min (n - tot) (512 - off mod 512)
        \<and> tot' = tot + min (n - tot) (512 - off mod 512)"
    have m: "unat (off mod 512) < 512"
      by (simp add: unat_mod)
    have s: "unat (512 - off mod 512) = 512 - unat (off mod 512)"
      using m by (subst unat_sub) (simp_all add: word_le_nat_alt)
    have d: "unat (n - tot) = unat n - unat tot"
      using lt by (subst unat_sub) (simp_all add: word_le_nat_alt word_less_nat_alt)
    let ?m = "min (n - tot) (512 - off mod 512)"
    have um: "unat ?m = min (unat n - unat tot) (512 - unat (off mod 512))"
      by (simp add: min_def word_le_nat_alt s d)
    have bn: "unat n < 2 ^ 32" using unsigned_less[of n, where ?'a = nat] by simp
    have "unat tot + unat ?m < 2 ^ 32" using um tn bn by simp
    then have "unat (tot + ?m) = unat tot + unat ?m"
      by (subst unat_add_lem[THEN iffD1]) simp_all
    moreover have "0 < unat ?m" using um tn m by simp
    ultimately have "unat n - unat tot' < unat n - unat tot" using tn um w by arith
    then show ?thesis by simp
  next
    assume k: "\<not> off div 512 \<le> foff \<and> off' = off \<and> tot' = tot"
    then have "foff < off div 512" by (auto simp: not_le)
    then have "unat (foff + 1) = unat foff + 1" "unat foff < unat (off div 512)"
      by unat_arith+
    then have "unat (off div 512) - unat (foff + 1) < unat (off div 512) - unat foff"
      by arith
    then show ?thesis using k by simp
  qed
qed

declare writei_loop.simps [simp del]

text \<open>
  The bytes of the local \<open>dip\<close> that the loop body fills from the inode: \<open>type\<close>,
  \<open>devid\<close>, \<open>size\<close>, the six extents, and the padding as it happens to be.
\<close>

definition dinode_bytes :: "env \<Rightarrow> inode \<Rightarrow> byte list" where
  "dinode_bytes ev ip =
     take 64 (wr16 (itype ip) @ wr16 (devid ip) @ wr32 (isize ip)
       @ concat (map (\<lambda>e. wr32 (startblkno e) @ wr32 (nblocks e)) (take 6 (data ip)))
       @ dip_pad ev)"

text \<open>
  The write-back when \<open>ip\<close> is \<open>&icache.inodefile\<close>: the inode is stored at the start of
  block \<open>sb.inodestart\<close> and the block is logged. The loop works on the inode file in
  place; the model stores the inode back first.
\<close>

definition wb_inodefile :: "env \<Rightarrow> fs_state \<Rightarrow> inode \<Rightarrow> fs_fail + fs_state" where
  "wb_inodefile ev st ip =
     (let st1 = st\<lparr>inodefile := ip\<rparr>;
          b = inodestart (sb st1)
      in log_write (buf_set st1 b (blk_put (bread st1 b) 0 (dinode_bytes ev ip))) b)"

text \<open>\<open>writei\<close> called on the inode file.\<close>

definition writei_inodefile ::
  "env \<Rightarrow> fs_state \<Rightarrow> byte list \<Rightarrow> uint \<Rightarrow> uint \<Rightarrow> fs_fail + (int \<times> fs_state)" where
  "writei_inodefile ev st src off n =
     (let ip = inodefile st
      in if \<not> locked ip then Inl (Panic ''not holding lock'')
         else if itype ip = T_DEV then Inl ToDevice
         else if off > isize ip \<or> off + n < off then Inr (- 1, st)
         else
           (case writei_loop (wb_inodefile ev) ev (loglock st) src n off st ip 0 0 0 off 0 of
              Inl e \<Rightarrow> Inl e
            | Inr (ip', st') \<Rightarrow> Inr (sint n, st'\<lparr>inodefile := ip'\<rparr>)))"

text \<open>
  \<open>read_dinode\<close>: the inode file is read at \<open>INODEOFF(inum)\<close> with its lock held (taken
  and released here unless the caller holds it). When \<open>readi\<close> delivers fewer than 64
  bytes the rest of the result is uninitialised.
\<close>

definition read_dinode :: "fs_state \<Rightarrow> uint \<Rightarrow> fs_fail + byte list" where
  "read_dinode st inum' =
     (case readi st ((inodefile st)\<lparr>locked := True\<rparr>) (inum' * 64) 64 of
        Inl e \<Rightarrow> Inl e
      | Inr (r, bs) \<Rightarrow> if length bs = 64 then Inr bs else Inl Uninitialised)"

definition load_dinode :: "inode \<Rightarrow> byte list \<Rightarrow> fs_fail + inode" where
  "load_dinode ip d =
     (let ip1 = ip\<lparr>itype := rd16 d 0, devid := rd16 d 2, isize := rd32 d 4,
                    data := rd_extents d 0, valid := 1\<rparr>
      in if itype ip1 = 0 then Inl (Panic ''iget: no type'') else Inr ip1)"

text \<open>
  \<open>locki\<close> and \<open>unlocki\<close> on the inode file and on an inode of the cache. Taking a
  sleep-lock that is held does not return.
\<close>

definition locki_inodefile :: "fs_state \<Rightarrow> fs_fail + fs_state" where
  "locki_inodefile st =
     (let ip = inodefile st
      in if ref ip < 1 then Inl (Panic ''locki'')
         else if locked ip then Inl Blocks
         else if valid ip = 0 then
           (case read_dinode st (inum ip) of
              Inl e \<Rightarrow> Inl e
            | Inr d \<Rightarrow>
                (case load_dinode (ip\<lparr>locked := True\<rparr>) d of
                   Inl e \<Rightarrow> Inl e
                 | Inr ip1 \<Rightarrow> Inr (st\<lparr>inodefile := ip1\<rparr>)))
         else Inr (st\<lparr>inodefile := ip\<lparr>locked := True\<rparr>\<rparr>))"

definition unlocki_inodefile :: "fs_state \<Rightarrow> fs_fail + fs_state" where
  "unlocki_inodefile st =
     (let ip = inodefile st
      in if \<not> locked ip \<or> ref ip < 1 then Inl (Panic ''unlocki'')
         else Inr (st\<lparr>inodefile := ip\<lparr>locked := False\<rparr>\<rparr>))"

definition locki :: "fs_state \<Rightarrow> inode \<Rightarrow> fs_fail + inode" where
  "locki st ip =
     (if ref ip < 1 then Inl (Panic ''locki'')
      else if locked ip then Inl Blocks
      else if valid ip = 0 then
        (if ref (inodefile st) < 1 then Inl (Panic ''locki'')
         else if locked (inodefile st) then Inl Blocks
         else (case read_dinode st (inum ip) of
                 Inl e \<Rightarrow> Inl e
               | Inr d \<Rightarrow> load_dinode (ip\<lparr>locked := True\<rparr>) d))
      else Inr (ip\<lparr>locked := True\<rparr>))"

definition unlocki :: "inode \<Rightarrow> fs_fail + inode" where
  "unlocki ip =
     (if \<not> locked ip \<or> ref ip < 1 then Inl (Panic ''unlocki'')
      else Inr (ip\<lparr>locked := False\<rparr>))"

definition concurrent_writei_inodefile ::
  "env \<Rightarrow> fs_state \<Rightarrow> byte list \<Rightarrow> uint \<Rightarrow> uint \<Rightarrow> fs_fail + (int \<times> fs_state)" where
  "concurrent_writei_inodefile ev st src off n =
     (case locki_inodefile st of
        Inl e \<Rightarrow> Inl e
      | Inr st1 \<Rightarrow>
          (case writei_inodefile ev st1 src off n of
             Inl e \<Rightarrow> Inl e
           | Inr (retval, st2) \<Rightarrow>
               (case unlocki_inodefile st2 of
                  Inl e \<Rightarrow> Inl e
                | Inr st3 \<Rightarrow> Inr (retval, st3))))"

text \<open>
  The write-back for any other inode: its \<open>dinode\<close> is written into the inode file at
  \<open>INODEOFF(ip->inum)\<close>; the value that call returns is dropped.
\<close>

definition wb_inode :: "env \<Rightarrow> fs_state \<Rightarrow> inode \<Rightarrow> fs_fail + fs_state" where
  "wb_inode ev st ip =
     (case concurrent_writei_inodefile ev st (dinode_bytes ev ip) (inum ip * 64) 64 of
        Inl e \<Rightarrow> Inl e
      | Inr (retval, st') \<Rightarrow> Inr st')"

text \<open>
  \<open>writei\<close> on an inode other than the inode file: the return value, the inode and the
  state afterwards.
\<close>

definition writei ::
  "env \<Rightarrow> fs_state \<Rightarrow> inode \<Rightarrow> byte list \<Rightarrow> uint \<Rightarrow> uint
   \<Rightarrow> fs_fail + (int \<times> inode \<times> fs_state)" where
  "writei ev st ip src off n =
     (if \<not> locked ip then Inl (Panic ''not holding lock'')
      else if itype ip = T_DEV then Inl ToDevice
      else if off > isize ip \<or> off + n < off then Inr (- 1, ip, st)
      else
        (case writei_loop (wb_inode ev) ev (loglock st) src n off st ip 0 0 0 off 0 of
           Inl e \<Rightarrow> Inl e
         | Inr (ip', st') \<Rightarrow> Inr (sint n, ip', st')))"

definition concurrent_readi ::
  "fs_state \<Rightarrow> inode \<Rightarrow> uint \<Rightarrow> uint \<Rightarrow> fs_fail + (int \<times> byte list \<times> inode)" where
  "concurrent_readi st ip off n =
     (case locki st ip of
        Inl e \<Rightarrow> Inl e
      | Inr ip1 \<Rightarrow>
          (case readi st ip1 off n of
             Inl e \<Rightarrow> Inl e
           | Inr (retval, dst) \<Rightarrow>
               (case unlocki ip1 of
                  Inl e \<Rightarrow> Inl e
                | Inr ip2 \<Rightarrow> Inr (retval, dst, ip2))))"

definition concurrent_writei ::
  "env \<Rightarrow> fs_state \<Rightarrow> inode \<Rightarrow> byte list \<Rightarrow> uint \<Rightarrow> uint
   \<Rightarrow> fs_fail + (int \<times> inode \<times> fs_state)" where
  "concurrent_writei ev st ip src off n =
     (case locki st ip of
        Inl e \<Rightarrow> Inl e
      | Inr ip1 \<Rightarrow>
          (case writei ev st ip1 src off n of
             Inl e \<Rightarrow> Inl e
           | Inr (retval, ip2, st') \<Rightarrow>
               (case unlocki ip2 of
                  Inl e \<Rightarrow> Inl e
                | Inr ip3 \<Rightarrow> Inr (retval, ip3, st'))))"


definition img_env :: env where
  "img_env = \<lparr>FSSIZE = 1000, dip_pad = replicate 8 0\<rparr>"

text \<open>
  The shape of the event trace: a transaction is \<open>TxBegin\<close>, then block writes only,
  then \<open>TxCommit\<close>. \<open>blocks_touched off n\<close> is the number of blocks that the byte range
  from \<open>off\<close> to \<open>off + n\<close> meets.
\<close>

fun is_bwrite :: "event \<Rightarrow> bool" where
  "is_bwrite (Bwrite b d) = True"
| "is_bwrite e = False"



text \<open>
  A transaction is open with \<open>k\<close> changes logged: the log lock is held and the buffer of
  the log block starts with a \<open>log_meta\<close> whose \<open>nchanges\<close> is \<open>k\<close>.
\<close>

definition log_open :: "fs_state \<Rightarrow> nat \<Rightarrow> bool" where
  "log_open st k \<longleftrightarrow>
     loglock st \<and> length (read_log_meta st) = LOGMETA \<and> unat (nchanges (read_log_meta st)) = k"

text \<open>
  What a call does to the trace: \<open>appends_writes\<close> says that it only added block writes;
  \<open>wb_ok\<close> says so of a write-back function called with the log lock held.
\<close>

definition appends_writes :: "fs_state \<Rightarrow> fs_state \<Rightarrow> bool" where
  "appends_writes st st' \<longleftrightarrow> (\<exists>ws. trace st' = trace st @ ws \<and> list_all is_bwrite ws)"



section \<open>Reading and writing through a descriptor (kernel/file.c, kernel/sysfile.c)\<close>

text \<open>
  \<open>struct file_info\<close> of inc/file.h; the fields carry the prefix \<open>f_\<close> where the plain
  name is taken. The pointers \<open>ip\<close> and \<open>pp\<close> are positions in the inode cache and in the
  list of pipes (\<open>None\<close> for \<open>NULL\<close>); \<open>f_lock\<close> says whether the sleep lock is held.
\<close>

record file_info =
  f_lock :: bool
  f_ip :: "nat option"
  f_pp :: "nat option"
  is_pipe :: bool
  f_ref :: int
  f_offset :: uint
  f_perm :: int

text \<open>
  What the two system calls can reach: the global table \<open>files_global\<close>, the descriptor
  table \<open>myproc()->files\<close> (pointers into the global table), the pipes, the cached inodes,
  the file system and the memory of the calling process.
\<close>

record kernel =
  files_global :: "file_info list"
  files :: "nat option list"
  pipes :: "pipe list"
  icache :: "inode list"
  fsys :: fs_state
  umem :: "byte list"

text \<open>
  What the sources leave open. \<open>argint\<close> and \<open>argptr\<close> are defined in syscall.c, which is
  not part of the sources: the value each call fetches is a parameter, \<open>None\<close> standing for
  a negative return value; \<open>argptr k size\<close> gives the position of the user buffer in the
  memory of the process. The three access modes are constants of fcntl.h, \<open>pipe_size\<close> is
  \<open>PGSIZE - sizeof(struct pipe)\<close>.
\<close>

record sysenv =
  argint :: "nat \<Rightarrow> uint option"
  argptr :: "nat \<Rightarrow> int \<Rightarrow> nat option"
  O_RDONLY :: int
  O_WRONLY :: int
  O_RDWR :: int
  pipe_size :: int
  fenv :: env

text \<open>
  Modelled from the spec: a process has a 16-slot file-descriptor table (param.h, which
  defines \<open>NOFILE\<close>, is not part of the sources).
\<close>

definition NOFILE :: int where
  "NOFILE = 16"

text \<open>
  \<open>fileread\<close>: \<open>fp\<close> is the position of the \<open>file_info\<close> in the global table, \<open>a\<close> the
  position of \<open>buf\<close> in the memory of the process, \<open>n\<close> the C \<open>int\<close>, read as signed by
  \<open>piperead\<close> and as \<open>uint\<close> by \<open>concurrent_readi\<close>. The offset moves only after the read,
  under the sleep lock of the \<open>file_info\<close>.
\<close>

definition fileread :: "sysenv \<Rightarrow> kernel \<Rightarrow> nat \<Rightarrow> nat \<Rightarrow> uint \<Rightarrow> fs_fail + (int \<times> kernel)" where
  "fileread se k fp a n =
     (if length (files_global k) \<le> fp then Inl (OutOfRange ''fp'')
      else
        (let fi = files_global k ! fp
         in if is_pipe fi then
              (case f_pp fi of
                 None \<Rightarrow> Inl (OutOfRange ''pp'')
               | Some pi \<Rightarrow>
                   if length (pipes k) \<le> pi then Inl (OutOfRange ''pp'')
                   else
                     (case piperead (pipe_size se) (pipes k ! pi) (sint n) of
                        Sleeps \<Rightarrow> Inl Blocks
                      | BadAccess \<Rightarrow> Inl (OutOfRange ''pipe'')
                      | Returns (r, p', bs) \<Rightarrow>
                          (case mem_write (umem k) (int a) bs of
                             None \<Rightarrow> Inl (OutOfRange ''buf'')
                           | Some m \<Rightarrow> Inr (r, k\<lparr>pipes := (pipes k)[pi := p'], umem := m\<rparr>))))
            else
              (case f_ip fi of
                 None \<Rightarrow> Inl (OutOfRange ''ip'')
               | Some ii \<Rightarrow>
                   if length (icache k) \<le> ii then Inl (OutOfRange ''ip'')
                   else
                     (case concurrent_readi (fsys k) (icache k ! ii) (f_offset fi) n of
                        Inl e \<Rightarrow> Inl e
                      | Inr (bytes, dst, ip') \<Rightarrow>
                          (case mem_write (umem k) (int a) dst of
                             None \<Rightarrow> Inl (OutOfRange ''buf'')
                           | Some m \<Rightarrow>
                               (let k1 = k\<lparr>icache := (icache k)[ii := ip'], umem := m\<rparr>
                                in if bytes = - 1 then Inr (- 1, k1)
                                   else if f_lock fi then Inl Blocks
                                   else Inr (bytes,
                                     k1\<lparr>files_global := (files_global k)
                                        [fp := fi\<lparr>f_offset := f_offset fi + word_of_int bytes\<rparr>]\<rparr>)))))))"

text \<open>
  \<open>filewrite\<close>: the source is the memory of the process from \<open>buf\<close> on. For a file the
  sleep lock is taken before the write; when the write returns -1 the function returns
  without releasing it.
\<close>

definition filewrite :: "sysenv \<Rightarrow> kernel \<Rightarrow> nat \<Rightarrow> nat \<Rightarrow> uint \<Rightarrow> fs_fail + (int \<times> kernel)" where
  "filewrite se k fp a n =
     (if length (files_global k) \<le> fp then Inl (OutOfRange ''fp'')
      else
        (let fi = files_global k ! fp
         in if is_pipe fi then
              (case f_pp fi of
                 None \<Rightarrow> Inl (OutOfRange ''pp'')
               | Some pi \<Rightarrow>
                   if length (pipes k) \<le> pi then Inl (OutOfRange ''pp'')
                   else
                     (case pipewrite (pipe_size se) (pipes k ! pi) (drop a (umem k)) (sint n) of
                        Sleeps \<Rightarrow> Inl Blocks
                      | BadAccess \<Rightarrow> Inl (OutOfRange ''pipe'')
                      | Returns (r, p') \<Rightarrow> Inr (r, k\<lparr>pipes := (pipes k)[pi := p']\<rparr>)))
            else if f_lock fi then Inl Blocks
            else
              (case f_ip fi of
                 None \<Rightarrow> Inl (OutOfRange ''ip'')
               | Some ii \<Rightarrow>
                   if length (icache k) \<le> ii then Inl (OutOfRange ''ip'')
                   else
                     (case concurrent_writei (fenv se) (fsys k) (icache k ! ii) (drop a (umem k))
                             (f_offset fi) n of
                        Inl e \<Rightarrow> Inl e
                      | Inr (bytes, ip', st') \<Rightarrow>
                          (let k1 = k\<lparr>icache := (icache k)[ii := ip'], fsys := st'\<rparr>
                           in if bytes = - 1 then
                                Inr (- 1, k1\<lparr>files_global := (files_global k)
                                        [fp := fi\<lparr>f_lock := True\<rparr>]\<rparr>)
                              else Inr (bytes,
                                k1\<lparr>files_global := (files_global k)
                                   [fp := fi\<lparr>f_offset := f_offset fi + word_of_int bytes\<rparr>]\<rparr>))))))"

text \<open>
  \<open>sys_read\<close> and \<open>sys_write\<close>: the checks in the order of the source. \<open>fd\<close> and \<open>n\<close> are C
  \<open>int\<close>s, compared as signed numbers. A call that is rejected returns -1 with the kernel
  as it was.
\<close>

definition sys_read :: "sysenv \<Rightarrow> kernel \<Rightarrow> fs_fail + (int \<times> kernel)" where
  "sys_read se k =
     (case argint se 0 of
        None \<Rightarrow> Inr (- 1, k)
      | Some fd \<Rightarrow>
          (case argint se 2 of
             None \<Rightarrow> Inr (- 1, k)
           | Some n \<Rightarrow>
               if sint n \<le> 0 then Inr (- 1, k)
               else
                 (case argptr se 1 (sint n) of
                    None \<Rightarrow> Inr (- 1, k)
                  | Some a \<Rightarrow>
                      if sint fd \<ge> NOFILE \<or> sint fd < 0 then Inr (- 1, k)
                      else if length (files k) \<le> nat (sint fd) then Inl (OutOfRange ''fd'')
                      else
                        (case files k ! nat (sint fd) of
                           None \<Rightarrow> Inr (- 1, k)
                         | Some fp \<Rightarrow>
                             if length (files_global k) \<le> fp then Inl (OutOfRange ''fp'')
                             else if f_perm (files_global k ! fp) \<noteq> O_RDONLY se
                                     \<and> f_perm (files_global k ! fp) \<noteq> O_RDWR se
                             then Inr (- 1, k)
                             else fileread se k fp a n))))"

definition sys_write :: "sysenv \<Rightarrow> kernel \<Rightarrow> fs_fail + (int \<times> kernel)" where
  "sys_write se k =
     (case argint se 0 of
        None \<Rightarrow> Inr (- 1, k)
      | Some fd \<Rightarrow>
          (case argint se 2 of
             None \<Rightarrow> Inr (- 1, k)
           | Some n \<Rightarrow>
               if sint n \<le> 0 then Inr (- 1, k)
               else
                 (case argptr se 1 (sint n) of
                    None \<Rightarrow> Inr (- 1, k)
                  | Some a \<Rightarrow>
                      if sint fd \<ge> NOFILE \<or> sint fd < 0 then Inr (- 1, k)
                      else if length (files k) \<le> nat (sint fd) then Inl (OutOfRange ''fd'')
                      else
                        (case files k ! nat (sint fd) of
                           None \<Rightarrow> Inr (- 1, k)
                         | Some fp \<Rightarrow>
                             if length (files_global k) \<le> fp then Inl (OutOfRange ''fp'')
                             else if f_perm (files_global k ! fp) \<noteq> O_WRONLY se
                                     \<and> f_perm (files_global k ! fp) \<noteq> O_RDWR se
                             then Inr (- 1, k)
                             else filewrite se k fp a n))))"

subsection \<open>A process with one open pipe\<close>

text \<open>
  A pipe with a ring of 16 bytes that holds the four unread bytes 1, 2, 3, 4, open for
  reading as descriptor 3 of the calling process, whose memory is 32 bytes long. The
  three arguments of the call are the descriptor, the position of the buffer and \<open>n\<close>.
\<close>

definition small_pipe :: pipe where
  "small_pipe = \<lparr>buf = [1, 2, 3, 4] @ replicate 12 0, head = 0, tail = 4,
     hasopenread = True, hasopenwrite = True\<rparr>"

definition pipe_kernel :: kernel where
  "pipe_kernel = \<lparr>files_global =
       [\<lparr>f_lock = False, f_ip = None, f_pp = Some 0, is_pipe = True, f_ref = 1,
         f_offset = 0, f_perm = 0\<rparr>],
     files = [None, None, None, Some 0] @ replicate 12 None,
     pipes = [small_pipe], icache = [], fsys = img_state, umem = replicate 32 0\<rparr>"

definition call_args :: "uint \<Rightarrow> sysenv" where
  "call_args n = \<lparr>argint = (\<lambda>i. if i = 0 then Some 3 else if i = 2 then Some n else None),
     argptr = (\<lambda>i size. if i = 1 \<and> 8 + size \<le> 32 then Some 8 else None),
     O_RDONLY = 0, O_WRONLY = 1, O_RDWR = 2, pipe_size = 16, fenv = img_env\<rparr>"

section \<open>Pipes: results\<close>

lemma smod_nonneg: "0 \<le> a \<Longrightarrow> 0 < b \<Longrightarrow> (a::int) smod b = a mod b"
  by (simp add: signed_modulo_int_def sgn_if)

text \<open>Reads keep the pipe invariant (for a non-negative length, as \<open>sys_read\<close> passes).\<close>

lemma piperead_keeps_inv:
  assumes "pipe_inv bs p" and "0 \<le> n" and "piperead bs p n = Returns (k, p', d)"
  shows "pipe_inv bs p'"
  using assms by (auto simp: piperead_def pipe_inv_def split: if_splits option.splits)

text \<open>
  Claim C4 (pipe invariant kept by every read and write). The write does not keep it:
  from \<open>pipe_wrapped\<close>, where \<open>tail - head = 2000\<close>, a write of 2500 bytes takes the
  branch for "enough room at the end of the buffer" (2936 bytes are left before the end
  of the ring, but only 1968 are free), copies all 2500 bytes over unread data and
  leaves \<open>tail - head = 4500\<close>, more than the 3968 bytes of the ring.
\<close>

theorem pipewrite_breaks_invariant:
  "pipe_inv 3968 pipe_wrapped \<and>
   pipewrite 3968 pipe_wrapped (replicate 2500 1) 2500 =
     Returns (2500, pipe_wrapped\<lparr>buf := replicate 1032 0 @ replicate 2500 1 @ replicate 564 0,
                                   tail := 7500\<rparr>) \<and>
   \<not> pipe_inv 3968 (pipe_wrapped\<lparr>buf := replicate 1032 0 @ replicate 2500 1 @ replicate 564 0,
                                   tail := 7500\<rparr>)"
  by (simp add: pipe_inv_def pipe_wrapped_def pipewrite_def mem_read_def mem_write_def
      signed_modulo_int_def)

text \<open>
  Claim C5 (a write appends the first \<open>k\<close> bytes of the source in order, wrapping, and
  advances \<open>tail\<close> by \<open>k\<close>). From \<open>pipe_at_end\<close>, writing the 16 bytes \<open>1..16\<close> returns
  16 and advances \<open>tail\<close> by 16, but the ring then holds \<open>1..8\<close> followed by \<open>1..8\<close>
  again: the second copy restarts at the beginning of the source.
\<close>

theorem pipewrite_wrap_repeats_source:
  "(case pipewrite 3968 pipe_at_end sixteen 16 of
      Returns (k, p') \<Rightarrow> (k, tail p' - tail pipe_at_end, ring_bytes 3968 (buf p') 3960 16)
    | _ \<Rightarrow> (0, 0, [])) = (16, 16, take 8 sixteen @ take 8 sixteen) \<and>
   take 8 sixteen @ take 8 sixteen \<noteq> take 16 sixteen"
  by (simp add: pipe_at_end_def sixteen_def pipewrite_def mem_read_def mem_write_def
      signed_modulo_int_def ring_bytes_def upt_rec nth_append)

text \<open>
  Claim C6 (a read returns 0 at end of file, and otherwise delivers
  \<open>min n (tail - head)\<close> bytes of the ring from position \<open>head mod buf_size\<close>). The end
  of file case and the count are as claimed (\<open>piperead_eof\<close>, \<open>piperead_count\<close>), but
  the copy is one contiguous \<open>memmove\<close>: from \<open>pipe_across\<close> a read of 16 bytes
  delivers the eight bytes at the end of the ring and then the eight bytes that follow
  the ring in memory, not the eight bytes at the start of the ring.
\<close>

theorem piperead_runs_past_ring:
  "(case piperead 3968 pipe_across 16 of
      Returns (k, p', d) \<Rightarrow> (k, head p', d) | _ \<Rightarrow> (0, 0, [])) =
     (16, 3976, take 8 sixteen @ replicate 8 0) \<and>
   ring_bytes 3968 (buf pipe_across) 3960 16 = sixteen"
  by (simp add: pipe_across_def sixteen_def piperead_def mem_read_def
      signed_modulo_int_def ring_bytes_def upt_rec nth_append)

lemma piperead_eof:
  "head p = tail p \<Longrightarrow> \<not> hasopenwrite p \<Longrightarrow> piperead bs p n = Returns (0, p, [])"
  by (simp add: piperead_def)

lemma piperead_count:
  assumes "head p \<noteq> tail p" and "piperead bs p n = Returns (k, p', d)"
  shows "k = min n (tail p - head p) \<and> p' = p\<lparr>head := head p + k\<rparr>"
  using assms by (auto simp: piperead_def Let_def split: if_splits option.splits)

section \<open>Page faults: results\<close>











section \<open>Waiting for children: results\<close>

lemma findzombiechild_from_found:
  "findzombiechild_from ptable np mypid i h ps = Returns (r, Some j) \<Longrightarrow>
   i \<le> j \<and> j < i + length ps \<and> state (ps ! (j - i)) = ZOMBIE \<and> pid (ps ! (j - i)) = r
   \<and> parent_pid ptable np (ps ! (j - i)) = Some mypid"
proof (induction ps arbitrary: i h)
  case Nil
  then show ?case by simp
next
  case (Cons p ps)
  show ?case
  proof (cases "parent_pid ptable np p = Some mypid \<and> state p = ZOMBIE")
    case True
    with Cons.prems show ?thesis by (auto split: option.splits if_splits)
  next
    case False
    with Cons.prems obtain h' where
      "findzombiechild_from ptable np mypid (i + 1) h' ps = Returns (r, Some j)"
      by (auto split: option.splits if_splits)
    from Cons.IH[OF this] show ?thesis by (auto simp: nth_Cons')
  qed
qed

text \<open>
  When \<open>wait\<close> returns a pid, it is the pid of a zombie slot whose parent has the
  caller's pid, and that slot has been freed.
\<close>

lemma wait_reaps_zombie_child:
  assumes "wait ptable np h mypid = Returns (r, ptable')" and "r \<noteq> - 1"
  shows "\<exists>j < length ptable. state (ptable ! j) = ZOMBIE \<and> pid (ptable ! j) = r
      \<and> parent_pid ptable np (ptable ! j) = Some mypid \<and> ptable' = freeproc ptable j"
  using assms findzombiechild_from_found[of ptable np mypid 0 h ptable]
  by (auto simp: wait_def findzombiechild_def split: outcome.splits option.splits if_splits)

text \<open>
  Claim C8 (\<open>wait\<close> returns -1 when the caller has no children, reaps a zombie child,
  sleeps when it has only live children). In \<open>two_procs\<close> the process with pid 2 has no
  children. \<open>findzombiechild\<close> then returns whatever its uninitialised local \<open>haschild\<close>
  held: when that is zero \<open>wait\<close> returns -1, when it is not \<open>wait\<close> goes to sleep
  instead, although the comment above \<open>wait\<close> promises -1.
\<close>

theorem wait_without_children_may_sleep:
  "wait two_procs (Some 0) True 2 = Sleeps \<and>
   wait two_procs (Some 0) False 2 = Returns (- 1, two_procs)"
  by (simp add: wait_def findzombiechild_def two_procs_def parent_pid_def)

section \<open>The redo log and boot recovery: results\<close>

lemma bread_buf_set [simp]: "bread (buf_set st b d) b' = (if b' = b then d else bread st b')"
  by (simp add: bread_def buf_set_def split: option.split)

lemma bread_bwrite [simp]: "bread (bwrite st b) b' = bread st b'"
  by (auto simp: bread_def bwrite_def split: option.split)

lemma disk_bwrite [simp]: "disk (bwrite st b) = (disk st)(b := bread st b)"
  by (simp add: bwrite_def)

lemma sb_bwrite [simp]: "sb (bwrite st b) = sb st" "sb (buf_set st b d) = sb st"
  by (simp_all add: bwrite_def buf_set_def)

lemma disk_buf_set [simp]: "disk (buf_set st b d) = disk st"
  by (simp add: buf_set_def)

lemma blk_put_whole: "length d = BSIZE \<Longrightarrow> length s = BSIZE \<Longrightarrow> blk_put d 0 (take BSIZE s) = s"
  by (simp add: blk_put_def)

lemma replay_effect:
  assumes "n = unat (nchanges lg)" and "n \<le> 19" and "j \<le> n"
    and "\<forall>a<n. \<forall>k<n. blocknos lg a \<noteq> logstart (sb st) + 1 + of_nat k"
    and "\<forall>a<n. length (bread st (blocknos lg a)) = BSIZE"
    and "\<forall>k<n. length (bread st (logstart (sb st) + 1 + of_nat k)) = BSIZE"
  shows "\<exists>st'. replay st lg j = Inr st' \<and> sb st' = sb st
     \<and> (\<forall>b. (\<forall>a. j \<le> a \<and> a < n \<longrightarrow> blocknos lg a \<noteq> b) \<longrightarrow>
            disk st' b = disk st b \<and> bread st' b = bread st b)
     \<and> (\<forall>a. j \<le> a \<and> a < n \<and> (\<forall>k. a < k \<and> k < n \<longrightarrow> blocknos lg k \<noteq> blocknos lg a) \<longrightarrow>
            disk st' (blocknos lg a) = bread st (logstart (sb st) + 1 + of_nat a))"
  using assms
proof (induction "n - j" arbitrary: j st)
  case 0
  then have "j = n" by simp
  with 0 show ?case by (subst replay.simps) auto
next
  case (Suc d)
  then have jn: "j < n" by simp
  let ?L = "logstart (sb st)"
  let ?h = "blocknos lg j"
  let ?s = "bread st (?L + 1 + of_nat j)"
  define st1 where "st1 = bwrite (buf_set st ?h (blk_put (bread st ?h) 0 (take BSIZE ?s))) ?h"
  have put: "blk_put (bread st ?h) 0 (take BSIZE ?s) = ?s"
    using Suc.prems(5,6) jn by (intro blk_put_whole) blast+
  have step: "replay st lg j = replay st1 lg (j + 1)"
    using jn Suc.prems by (subst replay.simps) (simp add: st1_def Let_def)
  have sb1: "sb st1 = sb st" by (simp add: st1_def)
  have br1: "\<And>b. bread st1 b = (if b = ?h then ?s else bread st b)"
    by (simp add: st1_def put)
  have dk1: "\<And>b. disk st1 b = (if b = ?h then ?s else disk st b)"
    by (simp add: st1_def put)
  have ne: "\<And>a k. a < n \<Longrightarrow> k < n \<Longrightarrow> blocknos lg a \<noteq> ?L + 1 + of_nat k"
    using Suc.prems(4) by blast
  have len_h: "\<And>a. a < n \<Longrightarrow> length (bread st (blocknos lg a)) = BSIZE"
    using Suc.prems(5) by blast
  have len_s: "\<And>k. k < n \<Longrightarrow> length (bread st (?L + 1 + of_nat k)) = BSIZE"
    using Suc.prems(6) by blast
  have shadow1: "\<And>k. k < n \<Longrightarrow> bread st1 (?L + 1 + of_nat k) = bread st (?L + 1 + of_nat k)"
  proof -
    fix k assume "k < n"
    then have "?L + 1 + of_nat k \<noteq> ?h" using ne[OF jn] by fastforce
    then show "bread st1 (?L + 1 + of_nat k) = bread st (?L + 1 + of_nat k)"
      by (simp add: br1)
  qed
  have "\<exists>st'. replay st1 lg (j + 1) = Inr st' \<and> sb st' = sb st1
     \<and> (\<forall>b. (\<forall>a. j + 1 \<le> a \<and> a < n \<longrightarrow> blocknos lg a \<noteq> b) \<longrightarrow>
            disk st' b = disk st1 b \<and> bread st' b = bread st1 b)
     \<and> (\<forall>a. j + 1 \<le> a \<and> a < n \<and> (\<forall>k. a < k \<and> k < n \<longrightarrow> blocknos lg k \<noteq> blocknos lg a) \<longrightarrow>
            disk st' (blocknos lg a) = bread st1 (logstart (sb st1) + 1 + of_nat a))"
  proof (rule Suc.hyps(1))
    show "d = n - (j + 1)" using Suc.hyps(2) by simp
    show "n = unat (nchanges lg)" by (rule Suc.prems)
    show "n \<le> 19" by (rule Suc.prems)
    show "j + 1 \<le> n" using jn by simp
    show "\<forall>a<n. \<forall>k<n. blocknos lg a \<noteq> logstart (sb st1) + 1 + of_nat k"
      using Suc.prems by (simp add: sb1)
    show "\<forall>a<n. length (bread st1 (blocknos lg a)) = BSIZE"
      using len_h len_s[OF jn] by (simp add: br1)
    show "\<forall>k<n. length (bread st1 (logstart (sb st1) + 1 + of_nat k)) = BSIZE"
      using len_s shadow1 by (simp add: sb1)
  qed
  then obtain st' where r: "replay st1 lg (j + 1) = Inr st'" and s: "sb st' = sb st1"
    and keep: "\<And>b. (\<forall>a. j + 1 \<le> a \<and> a < n \<longrightarrow> blocknos lg a \<noteq> b) \<Longrightarrow>
            disk st' b = disk st1 b \<and> bread st' b = bread st1 b"
    and last: "\<And>a. j + 1 \<le> a \<Longrightarrow> a < n \<Longrightarrow> (\<forall>k. a < k \<and> k < n \<longrightarrow> blocknos lg k \<noteq> blocknos lg a) \<Longrightarrow>
            disk st' (blocknos lg a) = bread st1 (logstart (sb st1) + 1 + of_nat a)"
    by blast
  have k2: "\<forall>b. (\<forall>a. j \<le> a \<and> a < n \<longrightarrow> blocknos lg a \<noteq> b) \<longrightarrow>
            disk st' b = disk st b \<and> bread st' b = bread st b"
  proof (intro allI impI)
    fix b assume nb: "\<forall>a. j \<le> a \<and> a < n \<longrightarrow> blocknos lg a \<noteq> b"
    then have "b \<noteq> ?h" using jn by auto
    moreover have "disk st' b = disk st1 b \<and> bread st' b = bread st1 b"
      using nb by (intro keep) auto
    ultimately show "disk st' b = disk st b \<and> bread st' b = bread st b"
      by (simp add: br1 dk1)
  qed
  have l2: "\<forall>a. j \<le> a \<and> a < n \<and> (\<forall>k. a < k \<and> k < n \<longrightarrow> blocknos lg k \<noteq> blocknos lg a) \<longrightarrow>
            disk st' (blocknos lg a) = bread st (?L + 1 + of_nat a)"
  proof (intro allI impI)
    fix a assume a: "j \<le> a \<and> a < n \<and> (\<forall>k. a < k \<and> k < n \<longrightarrow> blocknos lg k \<noteq> blocknos lg a)"
    show "disk st' (blocknos lg a) = bread st (?L + 1 + of_nat a)"
    proof (cases "a = j")
      case True
      have "disk st' ?h = disk st1 ?h \<and> bread st' ?h = bread st1 ?h"
        using a True by (intro keep) auto
      then show ?thesis using True by (simp add: dk1)
    next
      case False
      then have "j + 1 \<le> a" using a by simp
      then have "disk st' (blocknos lg a) = bread st1 (logstart (sb st1) + 1 + of_nat a)"
        using a by (intro last) auto
      then show ?thesis using a shadow1 by (simp add: sb1)
    qed
  qed
  show ?case using r s sb1 k2 l2 step by simp
qed


lemma log_okD:
  assumes "log_ok st L lg"
  shows "unat (nchanges lg) \<le> 19"
    and "\<forall>a<unat (nchanges lg). blocknos lg a \<noteq> L"
    and "\<forall>a<unat (nchanges lg). \<forall>k<unat (nchanges lg). blocknos lg a \<noteq> L + 1 + of_nat k"
    and "\<forall>a<unat (nchanges lg). length (bread st (blocknos lg a)) = BSIZE"
    and "\<forall>k<unat (nchanges lg). length (bread st (L + 1 + of_nat k)) = BSIZE"
  using assms by (auto simp: log_ok_def list_all_iff)

lemma boot_view:
  "bread (init_inodefile (st\<lparr>inodefile := i, sb := s\<rparr>) d\<lparr>loglock := False\<rparr>) b = bread st b"
  "sb (init_inodefile (st\<lparr>inodefile := i, sb := s\<rparr>) d\<lparr>loglock := False\<rparr>) = s"
  "disk (init_inodefile (st\<lparr>inodefile := i, sb := s\<rparr>) d\<lparr>loglock := False\<rparr>) = disk st"
  "cache (init_inodefile (st\<lparr>inodefile := i, sb := s\<rparr>) d\<lparr>loglock := False\<rparr>) = cache st"
  "trace (init_inodefile (st\<lparr>inodefile := i, sb := s\<rparr>) d\<lparr>loglock := False\<rparr>) = trace st"
  by (simp_all add: init_inodefile_def bread_def Let_def split: option.split)

text \<open>
  Claim C3 as stated (recovery also clears \<open>log_meta\<close> when \<open>committed\<close> is 0) fails:
  \<open>iinit\<close> writes to the device only inside \<open>if (log.commited == 1)\<close>. After a crash in
  an open transaction the log block still records one change when \<open>iinit\<close> returns.
\<close>

theorem iinit_keeps_uncommitted_log:
  "commited (boot_log crashed_open) = 0 \<and>
   (case iinit [] crashed_open 1 of
      Inr st \<Rightarrow> disk st 100 = disk crashed_open 100 \<and> nchanges (take 84 (disk st 100)) = 1
        \<and> trace st = []
    | Inl e \<Rightarrow> False)"
  by code_simp

text \<open>
  Claim C3, amended: \<open>iinit\<close> reads \<open>log_meta\<close> from block \<open>sb.logstart\<close>. If
  \<open>committed\<close> is not 1 it writes nothing: device and buffers are as before (the next
  \<open>begin_tx\<close> overwrites the stale metadata). If \<open>committed\<close> is 1 and the log is well
  formed, it copies each shadow block, whole, to its recorded home block (where a home
  block is recorded more than once the last copy stays) and then writes an all-zero
  \<open>log_meta\<close> to the log block.
\<close>

theorem iinit_recovery:
  "(commited (boot_log st) \<noteq> 1 \<longrightarrow>
      (\<exists>st'. iinit after st dev' = Inr st' \<and> disk st' = disk st \<and> cache st' = cache st
          \<and> trace st' = trace st))
   \<and> (commited (boot_log st) = 1 \<and> log_ok st (logstart (readsb st)) (boot_log st) \<longrightarrow>
      (\<exists>st'. iinit after st dev' = Inr st'
        \<and> (\<forall>j < unat (nchanges (boot_log st)).
              (\<forall>k. j < k \<and> k < unat (nchanges (boot_log st))
                   \<longrightarrow> blocknos (boot_log st) k \<noteq> blocknos (boot_log st) j)
              \<longrightarrow> disk st' (blocknos (boot_log st) j)
                  = bread st (logstart (readsb st) + 1 + of_nat j))
        \<and> take LOGMETA (disk st' (logstart (readsb st))) = replicate LOGMETA 0))"
proof (intro conjI impI)
  define st2 where
    "st2 = init_inodefile (st\<lparr>inodefile := (inodefile st)\<lparr>locked := False\<rparr>, sb := readsb st\<rparr>) dev'
             \<lparr>loglock := False\<rparr>"
  have v: "\<And>b. bread st2 b = bread st b" "sb st2 = readsb st" "disk st2 = disk st"
    "cache st2 = cache st" "trace st2 = trace st"
    unfolding st2_def by (rule boot_view)+
  have lg: "read_log_meta st2 = boot_log st"
    by (simp add: read_log_meta_def boot_log_def v)
  have unfold: "iinit after st dev' =
     (if commited (boot_log st) = 1 then
        (case replay st2 (boot_log st) 0 of
           Inl e \<Rightarrow> Inl e
         | Inr st3 \<Rightarrow>
            Inr (bwrite (buf_set st3 (logstart (sb st3))
                 (blk_put (bread st3 (logstart (sb st3))) 0
                    (take BSIZE (replicate LOGMETA 0 @ after)))) (logstart (sb st3))))
      else Inr st2)"
    by (simp add: iinit_def Let_def st2_def[symmetric] lg split: sum.split)
  {
    assume "commited (boot_log st) \<noteq> 1"
    then show "\<exists>st'. iinit after st dev' = Inr st' \<and> disk st' = disk st \<and> cache st' = cache st
          \<and> trace st' = trace st"
      by (simp add: unfold v)
  }
  {
    assume a: "commited (boot_log st) = 1 \<and> log_ok st (logstart (readsb st)) (boot_log st)"
    let ?lg = "boot_log st"
    let ?n = "unat (nchanges ?lg)"
    let ?L = "logstart (readsb st)"
    note ok = log_okD[OF a[THEN conjunct2]]
    have "\<exists>st'. replay st2 ?lg 0 = Inr st' \<and> sb st' = sb st2
       \<and> (\<forall>b. (\<forall>a. 0 \<le> a \<and> a < ?n \<longrightarrow> blocknos ?lg a \<noteq> b) \<longrightarrow>
            disk st' b = disk st2 b \<and> bread st' b = bread st2 b)
       \<and> (\<forall>a. 0 \<le> a \<and> a < ?n \<and> (\<forall>k. a < k \<and> k < ?n \<longrightarrow> blocknos ?lg k \<noteq> blocknos ?lg a) \<longrightarrow>
            disk st' (blocknos ?lg a) = bread st2 (logstart (sb st2) + 1 + of_nat a))"
      using ok by (intro replay_effect) (simp_all add: v)
    then obtain st3 where r: "replay st2 ?lg 0 = Inr st3" and s3: "sb st3 = readsb st"
      and last: "\<And>a. a < ?n \<Longrightarrow> (\<forall>k. a < k \<and> k < ?n \<longrightarrow> blocknos ?lg k \<noteq> blocknos ?lg a) \<Longrightarrow>
            disk st3 (blocknos ?lg a) = bread st (?L + 1 + of_nat a)"
      by (auto simp: v)
    define st4 where "st4 = bwrite (buf_set st3 ?L
                 (blk_put (bread st3 ?L) 0 (take BSIZE (replicate LOGMETA 0 @ after)))) ?L"
    have res: "iinit after st dev' = Inr st4"
      using a r by (simp add: unfold s3 st4_def)
    have d4: "\<And>b. b \<noteq> ?L \<Longrightarrow> disk st4 b = disk st3 b"
      by (simp add: st4_def)
    have m4: "take LOGMETA (disk st4 ?L) = replicate LOGMETA 0"
      by (simp add: st4_def blk_put_def LOGMETA_def BSIZE_def)
    have "\<forall>j < ?n. (\<forall>k. j < k \<and> k < ?n \<longrightarrow> blocknos ?lg k \<noteq> blocknos ?lg j)
              \<longrightarrow> disk st4 (blocknos ?lg j) = bread st (?L + 1 + of_nat j)"
      using ok(2) last d4 by simp
    then show "\<exists>st'. iinit after st dev' = Inr st'
        \<and> (\<forall>j < ?n. (\<forall>k. j < k \<and> k < ?n \<longrightarrow> blocknos ?lg k \<noteq> blocknos ?lg j)
              \<longrightarrow> disk st' (blocknos ?lg j) = bread st (?L + 1 + of_nat j))
        \<and> take LOGMETA (disk st' ?L) = replicate LOGMETA 0"
      using res m4 by blast
  }
qed


theorem iinit_recovery_witness:
  "commited (boot_log crashed_open) \<noteq> 1 \<and>
   commited (boot_log crashed_committed) = 1 \<and>
   log_ok crashed_committed (logstart (readsb crashed_committed)) (boot_log crashed_committed) \<and>
   (\<exists>st'. iinit [] crashed_open 1 = Inr st' \<and> disk st' = disk crashed_open) \<and>
   (\<exists>st'. iinit [] crashed_committed 1 = Inr st' \<and> disk st' 200 = replicate 512 0xAA
       \<and> take LOGMETA (disk st' 100) = replicate LOGMETA 0)"
proof -
  have o: "commited (boot_log crashed_open) \<noteq> 1" by code_simp
  have c: "commited (boot_log crashed_committed) = 1"
    "log_ok crashed_committed (logstart (readsb crashed_committed)) (boot_log crashed_committed)"
    "unat (nchanges (boot_log crashed_committed)) = 1"
    "blocknos (boot_log crashed_committed) 0 = 200"
    "logstart (readsb crashed_committed) = 100"
    "bread crashed_committed 101 = replicate 512 0xAA"
    by code_simp+
  from iinit_recovery[of crashed_open "[]" 1] o
  have 1: "\<exists>st'. iinit [] crashed_open 1 = Inr st' \<and> disk st' = disk crashed_open"
    by blast
  from iinit_recovery[of crashed_committed "[]" 1] c(1,2)
  obtain st' where "iinit [] crashed_committed 1 = Inr st'"
    and h: "\<forall>j < unat (nchanges (boot_log crashed_committed)).
              (\<forall>k. j < k \<and> k < unat (nchanges (boot_log crashed_committed))
                   \<longrightarrow> blocknos (boot_log crashed_committed) k \<noteq> blocknos (boot_log crashed_committed) j)
              \<longrightarrow> disk st' (blocknos (boot_log crashed_committed) j)
                  = bread crashed_committed (logstart (readsb crashed_committed) + 1 + of_nat j)"
    and "take LOGMETA (disk st' (logstart (readsb crashed_committed))) = replicate LOGMETA 0"
    by blast
  moreover have "disk st' 200 = replicate 512 0xAA"
    using h[rule_format, of 0] by (simp add: c)
  ultimately have 2: "\<exists>st'. iinit [] crashed_committed 1 = Inr st' \<and> disk st' 200 = replicate 512 0xAA
       \<and> take LOGMETA (disk st' 100) = replicate LOGMETA 0"
    by (auto simp: c)
  show ?thesis using o c(1,2) 1 2 by blast
qed


section \<open>Reading a file: results\<close>

lemma takeWhile_take_all:
  "x \<le> length d \<Longrightarrow> \<forall>e<x. P (d ! e) \<Longrightarrow> takeWhile P d = take x d @ takeWhile P (drop x d)"
proof (induction d arbitrary: x)
  case Nil
  then show ?case by simp
next
  case (Cons a d)
  show ?case
  proof (cases x)
    case 0
    then show ?thesis by simp
  next
    case (Suc y)
    with Cons.prems have "P a" "y \<le> length d" "\<forall>e<y. P (d ! e)" by auto
    with Cons.IH[of y] Suc show ?thesis by simp
  qed
qed

lemma concat_nth_block:
  "\<forall>xs \<in> set xss. length xs = c \<Longrightarrow> i < length xss \<Longrightarrow> r \<le> c \<Longrightarrow>
   drop (c * i + r) (concat xss) = drop r (xss ! i) @ concat (drop (Suc i) xss)"
proof (induction xss arbitrary: i)
  case Nil
  then show ?case by simp
next
  case (Cons a xss)
  show ?case
  proof (cases i)
    case 0
    with Cons.prems show ?thesis by simp
  next
    case (Suc j)
    with Cons.prems have "drop (c * j + r) (concat xss) = drop r (xss ! j) @ concat (drop (Suc j) xss)"
      by (intro Cons.IH) auto
    moreover have "c * i + r = c + (c * j + r)" using Suc by simp
    ultimately show ?thesis using Cons.prems Suc by (simp del: drop_Suc_Cons add: drop_Suc_Cons)
  qed
qed

lemma concat_take_block:
  assumes "\<forall>xs \<in> set xss. length xs = c" and "i < length xss" and "r + m \<le> c"
  shows "take m (drop (c * i + r) (concat xss)) = take m (drop r (xss ! i))"
proof -
  have "length (xss ! i) = c" using assms by simp
  then have "m \<le> length (drop r (xss ! i))" using assms by simp
  then show ?thesis using assms by (subst concat_nth_block[where c=c]) auto
qed


lemma length_concat_extent_blocks:
  "length (concat (map extent_blocks xs)) = sum_list (map (\<lambda>e. unat (nblocks e)) xs)"
  by (induction xs) (simp_all add: extent_blocks_def)

lemma file_blocks_split:
  assumes "x \<le> length (data ip)" and "\<forall>e<x. nblocks (data ip ! e) \<noteq> 0"
  shows "file_blocks ip = concat (map extent_blocks (take x (data ip)))
           @ concat (map extent_blocks (takeWhile (\<lambda>e. nblocks e \<noteq> 0) (drop x (data ip))))"
  unfolding file_blocks_def
  by (subst takeWhile_take_all[where x=x and P="\<lambda>e. nblocks e \<noteq> 0"]) (use assms in simp_all)

lemma file_blocks_stop:
  assumes "x < length (data ip)" and "\<forall>e<x. nblocks (data ip ! e) \<noteq> 0"
    and "nblocks (data ip ! x) = 0"
  shows "length (file_blocks ip) = blocks_before ip x"
proof -
  have "drop x (data ip) = data ip ! x # drop (Suc x) (data ip)"
    using assms(1) by (simp add: Cons_nth_drop_Suc)
  then have "takeWhile (\<lambda>e. nblocks e \<noteq> 0) (drop x (data ip)) = []"
    using assms(3) by simp
  then show ?thesis
    using file_blocks_split[of x ip] assms
    by (simp add: length_concat_extent_blocks blocks_before_def)
qed

lemma file_blocks_all:
  assumes "\<forall>e<length (data ip). nblocks (data ip ! e) \<noteq> 0"
  shows "length (file_blocks ip) = blocks_before ip (length (data ip))"
  using file_blocks_split[of "length (data ip)" ip] assms
  by (simp add: length_concat_extent_blocks blocks_before_def)

lemma file_blocks_nth:
  assumes "x < length (data ip)" and "\<forall>e<x. nblocks (data ip ! e) \<noteq> 0"
    and "k < unat (nblocks (data ip ! x))"
  shows "file_blocks ip ! (blocks_before ip x + k) = startblkno (data ip ! x) + of_nat k"
proof -
  have nz: "nblocks (data ip ! x) \<noteq> 0" using assms(3) by (auto simp: unat_gt_0)
  have d: "drop x (data ip) = data ip ! x # drop (Suc x) (data ip)"
    using assms(1) by (simp add: Cons_nth_drop_Suc)
  have "file_blocks ip = concat (map extent_blocks (take x (data ip)))
          @ extent_blocks (data ip ! x)
          @ concat (map extent_blocks (takeWhile (\<lambda>e. nblocks e \<noteq> 0) (drop (Suc x) (data ip))))"
    using file_blocks_split[of x ip] assms(1,2) nz by (simp add: d)
  moreover have "length (concat (map extent_blocks (take x (data ip)))) = blocks_before ip x"
    by (simp add: length_concat_extent_blocks blocks_before_def)
  moreover have "extent_blocks (data ip ! x) ! k = startblkno (data ip ! x) + of_nat k"
    using assms(3) by (simp add: extent_blocks_def)
  moreover have "k < length (extent_blocks (data ip ! x))"
    using assms(3) by (simp add: extent_blocks_def)
  ultimately show ?thesis by (simp add: nth_append)
qed

lemma blocks_before_Suc:
  "x < length (data ip) \<Longrightarrow> blocks_before ip (Suc x) = blocks_before ip x + unat (nblocks (data ip ! x))"
  by (simp add: blocks_before_def take_Suc_conv_app_nth)

lemma cursor_step:
  assumes len: "length (data ip) = 6"
    and cur: "cursor_at ip extno extoff foff"
    and inside: "unat foff < length (file_blocks ip)"
    and small: "unat foff + 1 < 2 ^ 32"
  shows "\<exists>extno' extoff'. readi_cursor ip extno extoff = Inr (extno', extoff')
     \<and> cursor_at ip extno' (extoff' + 1) (foff + 1)
     \<and> startblkno (data ip ! extno') + extoff' = file_blocks ip ! unat foff"
proof -
  from cur have x6: "extno < 6" and nzb: "\<forall>e<extno. nblocks (data ip ! e) \<noteq> 0"
    and le: "unat extoff \<le> unat (nblocks (data ip ! extno))"
    and pos: "unat foff = blocks_before ip extno + unat extoff"
    by (simp_all add: cursor_at_def)
  have f1: "unat (foff + 1) = unat foff + 1"
    using small by (subst unat_add_lem[THEN iffD1]) simp_all
  have nz: "nblocks (data ip ! extno) \<noteq> 0"
  proof
    assume z: "nblocks (data ip ! extno) = 0"
    then have "length (file_blocks ip) = blocks_before ip extno"
      using x6 len nzb by (intro file_blocks_stop) simp_all
    then show False using inside pos by simp
  qed
  then have gt: "nblocks (data ip ! extno) > 0" by (simp add: word_greater_zero_iff)
  show ?thesis
  proof (cases "extoff \<ge> nblocks (data ip ! extno)")
    case False
    then have lt: "unat extoff < unat (nblocks (data ip ! extno))"
      by (simp add: word_le_nat_alt)
    have rc: "readi_cursor ip extno extoff = Inr (extno, extoff)"
      using x6 gt False by (simp add: readi_cursor_def)
    have e1: "unat (extoff + 1) = unat extoff + 1"
      using lt unsigned_less[of "nblocks (data ip ! extno)", where ?'a = nat]
      by (subst unat_add_lem[THEN iffD1]) simp_all
    have c': "cursor_at ip extno (extoff + 1) (foff + 1)"
      using x6 nzb lt pos by (simp add: cursor_at_def e1 f1)
    have "file_blocks ip ! (blocks_before ip extno + unat extoff)
            = startblkno (data ip ! extno) + of_nat (unat extoff)"
      using x6 len nzb lt by (intro file_blocks_nth) simp_all
    then have "startblkno (data ip ! extno) + extoff = file_blocks ip ! unat foff"
      by (simp add: pos)
    with rc c' show ?thesis by blast
  next
    case True
    then have eq: "unat extoff = unat (nblocks (data ip ! extno))"
      using le by (simp add: word_le_nat_alt)
    have posS: "unat foff = blocks_before ip (Suc extno)"
      using pos eq x6 len by (simp add: blocks_before_Suc)
    have nzS: "\<forall>e<Suc extno. nblocks (data ip ! e) \<noteq> 0"
      using nzb nz by (auto simp: less_Suc_eq)
    have x5: "extno < 5"
    proof (rule ccontr)
      assume "\<not> extno < 5"
      then have "Suc extno = length (data ip)" using x6 len by simp
      then have "length (file_blocks ip) = blocks_before ip (Suc extno)"
        using file_blocks_all[of ip] nzS by simp
      then show False using inside posS by simp
    qed
    have nz': "nblocks (data ip ! Suc extno) \<noteq> 0"
    proof
      assume "nblocks (data ip ! Suc extno) = 0"
      then have "length (file_blocks ip) = blocks_before ip (Suc extno)"
        using x5 len nzS by (intro file_blocks_stop) simp_all
      then show False using inside posS by simp
    qed
    then have gt': "0 < unat (nblocks (data ip ! Suc extno))" by (simp add: unat_gt_0)
    have rc: "readi_cursor ip extno extoff = Inr (extno + 1, 0)"
      using x6 gt True x5 by (simp add: readi_cursor_def)
    have c': "cursor_at ip (extno + 1) (0 + 1) (foff + 1)"
      using x5 nzS gt' posS by (simp add: cursor_at_def f1)
    have "file_blocks ip ! (blocks_before ip (Suc extno) + 0)
            = startblkno (data ip ! Suc extno) + of_nat 0"
      using x5 len nzS gt' by (intro file_blocks_nth) simp_all
    then have "startblkno (data ip ! (extno + 1)) + 0 = file_blocks ip ! unat foff"
      by (simp add: posS)
    with rc c' show ?thesis by blast
  qed
qed


lemma readi_loop_correct:
  assumes "length (data ip) = 6"
    and "\<forall>b \<in> set (file_blocks ip). length (bread st b) = 512"
    and "unat off0 + unat n \<le> unat (isize ip)"
    and "unat (isize ip) \<le> 512 * length (file_blocks ip)"
    and "unat tot \<le> unat n"
    and "unat off = unat off0 + unat tot"
    and "dst = take (unat tot) (drop (unat off0) (file_bytes st ip))"
    and "tot < n \<longrightarrow> cursor_at ip extno extoff foff \<and> unat foff \<le> unat off div 512
           \<and> (0 < unat tot \<longrightarrow> unat foff = unat off div 512)"
  shows "readi_loop st ip n extno extoff foff off tot dst
           = Inr (take (unat n) (drop (unat off0) (file_bytes st ip)))"
  using assms
proof (induction st ip n extno extoff foff off tot dst rule: readi_loop.induct)
  case (1 st ip n extno extoff foff off tot dst)
  let ?FB = "file_bytes st ip"
  let ?fb = "file_blocks ip"
  note len = "1.prems"(1) and blk = "1.prems"(2) and fit = "1.prems"(3) and cov = "1.prems"(4)
    and s1 = "1.prems"(5) and s2 = "1.prems"(6) and s3 = "1.prems"(7) and s4 = "1.prems"(8)
  show ?case
  proof (cases "tot < n")
    case False
    then have "unat tot = unat n" using s1 by (simp add: word_less_nat_alt)
    then show ?thesis using False s3 by (subst readi_loop.simps) simp
  next
    case True
    then have tn: "unat tot < unat n" by (simp add: word_less_nat_alt)
    from s4 True have cur: "cursor_at ip extno extoff foff"
      and fle: "unat foff \<le> unat off div 512"
      and feq: "0 < unat tot \<Longrightarrow> unat foff = unat off div 512"
      by simp_all
    have bsz: "unat (isize ip) < 2 ^ 32" using unsigned_less[of "isize ip", where ?'a = nat] by simp
    have offlt: "unat off < 512 * length ?fb" using s2 tn fit cov by simp
    then have inside: "unat foff < length ?fb" using fle by (simp add: less_mult_imp_div_less mult.commute order_le_less_trans) 
    have small: "unat foff + 1 < 2 ^ 32"
    proof -
      have "unat off < 2 ^ 32" using unsigned_less[of off, where ?'a = nat] by simp
      then have "unat off div 512 < 2 ^ 23" by simp
      then show ?thesis using fle by simp
    qed
    from cursor_step[OF len cur inside small] obtain extno' extoff' where
      rc: "readi_cursor ip extno extoff = Inr (extno', extoff')"
      and c': "cursor_at ip extno' (extoff' + 1) (foff + 1)"
      and b: "startblkno (data ip ! extno') + extoff' = ?fb ! unat foff"
      by blast
    have f1: "unat (foff + 1) = unat foff + 1"
      using small by (subst unat_add_lem[THEN iffD1]) simp_all
    have ud: "unat (off div 512) = unat off div 512" by (simp add: unat_div)
    show ?thesis
    proof (cases "off div 512 \<le> foff")
      case rd: True
      then have fq: "unat foff = unat off div 512"
        using fle by (simp add: word_le_nat_alt ud)
      define r where "r = unat off mod 512"
      define m where "m = min (n - tot) (512 - off mod 512)"
      define mm where "mm = min (unat n - unat tot) (512 - r)"
      have ur: "unat (off mod 512) = r" by (simp add: r_def unat_mod)
      have r512: "r < 512" by (simp add: r_def)
      have us: "unat (512 - off mod 512) = 512 - r"
        using r512 ur by (subst unat_sub) (simp_all add: word_le_nat_alt)
      have un: "unat (n - tot) = unat n - unat tot"
        using True by (subst unat_sub) (simp_all add: word_le_nat_alt word_less_nat_alt)
      have um: "unat m = mm"
        by (simp add: m_def mm_def min_def word_le_nat_alt us un)
      have mpos: "0 < mm" using tn r512 by (simp add: mm_def)
      have mle: "mm \<le> unat n - unat tot" "r + mm \<le> 512" using r512 by (simp_all add: mm_def)
      let ?buf = "bread st (?fb ! unat foff)"
      have blen: "length ?buf = 512" using blk inside by simp
      have mr: "mem_read ?buf (uint (off mod 512)) (uint m) = Some (take mm (drop r ?buf))"
        using mle(2) blen ur um
        by (simp add: mem_read_def uint_nat)
      have "take mm (drop (512 * unat foff + r) (concat (map (bread st) ?fb)))
              = take mm (drop r (map (bread st) ?fb ! unat foff))"
        using blk inside mle(2) by (intro concat_take_block) auto
      moreover have "512 * unat foff + r = unat off" by (simp add: fq r_def)
      ultimately have bs: "take mm (drop r ?buf) = take mm (drop (unat off) ?FB)"
        using inside by (simp add: file_bytes_def)
      have tplus: "unat (tot + m) = unat tot + mm"
        using um mle(1) tn unsigned_less[of n, where ?'a = nat]
        by (subst unat_add_lem[THEN iffD1]) simp_all
      have oplus: "unat (off + m) = unat off + mm"
        using um mle(1) tn s2 fit bsz
        by (subst unat_add_lem[THEN iffD1]) simp_all
      have dst': "dst @ take mm (drop r ?buf) = take (unat (tot + m)) (drop (unat off0) ?FB)"
      proof -
        have "take (unat tot + mm) (drop (unat off0) ?FB)
                = take (unat tot) (drop (unat off0) ?FB)
                  @ take mm (drop (unat tot) (drop (unat off0) ?FB))"
          by (rule take_add)
        moreover have "drop (unat tot) (drop (unat off0) ?FB) = drop (unat off) ?FB"
          by (simp add: s2 add.commute)
        ultimately show ?thesis by (simp add: s3 bs tplus)
      qed
      have inv': "tot + m < n \<longrightarrow> cursor_at ip extno' (extoff' + 1) (foff + 1)
            \<and> unat (foff + 1) \<le> unat (off + m) div 512
            \<and> (0 < unat (tot + m) \<longrightarrow> unat (foff + 1) = unat (off + m) div 512)"
      proof
        assume "tot + m < n"
        then have "unat tot + mm < unat n" by (simp add: word_less_nat_alt tplus)
        then have "mm = 512 - r" using r512 by (simp add: mm_def min_def split: if_splits)
        moreover have "unat off = 512 * (unat off div 512) + r" by (simp add: r_def)
        ultimately have "unat (off + m) = 512 * (unat off div 512) + 512"
          using r512 oplus by linarith
        then have "unat (off + m) div 512 = unat off div 512 + 1" by simp
        then show "cursor_at ip extno' (extoff' + 1) (foff + 1)
            \<and> unat (foff + 1) \<le> unat (off + m) div 512
            \<and> (0 < unat (tot + m) \<longrightarrow> unat (foff + 1) = unat (off + m) div 512)"
          using c' by (simp add: f1 fq)
      qed
      have "readi_loop st ip n extno' (extoff' + 1) (foff + 1) (off + m) (tot + m)
              (dst @ take mm (drop r ?buf))
            = Inr (take (unat n) (drop (unat off0) ?FB))"
      proof (rule "1.IH"(1)[OF True rc refl rd m_def])
        show "mem_read (bread st (startblkno (data ip ! extno') + extoff'))
                (uint (off mod 512)) (uint m) = Some (take mm (drop r ?buf))"
          using mr by (simp add: b)
        show "unat (tot + m) \<le> unat n" using mle(1) tn by (simp add: tplus)
        show "unat (off + m) = unat off0 + unat (tot + m)" by (simp add: oplus tplus s2)
      qed (use len blk fit cov dst' inv' in simp_all)
      then show ?thesis
        using True rc rd mr by (subst readi_loop.simps) (simp add: b m_def[symmetric] Let_def)
    next
      case sk: False
      then have flt: "unat foff < unat off div 512"
        by (simp add: word_le_nat_alt ud)
      then have t0: "unat tot = 0" using feq by fastforce
      have inv': "tot < n \<longrightarrow> cursor_at ip extno' (extoff' + 1) (foff + 1)
            \<and> unat (foff + 1) \<le> unat off div 512
            \<and> (0 < unat tot \<longrightarrow> unat (foff + 1) = unat off div 512)"
        using c' flt t0 by (simp add: f1)
      have "readi_loop st ip n extno' (extoff' + 1) (foff + 1) off tot dst
            = Inr (take (unat n) (drop (unat off0) ?FB))"
        by (rule "1.IH"(2)[OF True rc refl sk]) (use len blk fit cov s1 s2 s3 inv' in simp_all)
      then show ?thesis
        using True rc sk by (subst readi_loop.simps) simp
    qed
  qed
qed


lemma length_file_bytes:
  "\<forall>b \<in> set (file_blocks ip). length (bread st b) = 512 \<Longrightarrow>
   length (file_bytes st ip) = 512 * length (file_blocks ip)"
proof -
  have "\<And>bs. \<forall>b \<in> set bs. length (bread st b) = 512 \<Longrightarrow>
          length (concat (map (bread st) bs)) = 512 * length bs"
    subgoal for bs by (induction bs) simp_all
    done
  then show "\<forall>b \<in> set (file_blocks ip). length (bread st b) = 512 \<Longrightarrow>
   length (file_bytes st ip) = 512 * length (file_blocks ip)"
    by (simp add: file_bytes_def)
qed

text \<open>
  Claim C7: for a locked inode that is not a device, \<open>readi\<close> returns -1 and stores
  nothing when \<open>off\<close> is beyond the size or \<open>off + n\<close> overflows; otherwise, on a well
  formed inode, the count is \<open>n\<close> clipped to \<open>size - off\<close>, it is the value returned (the
  \<open>uint\<close> count as an \<open>int\<close>), and the destination receives that many bytes: the
  contents of the file from offset \<open>off\<close> on.
\<close>

theorem readi_spec:
  assumes "locked ip" and "itype ip \<noteq> T_DEV"
  shows "(off > isize ip \<or> off + n < off \<longrightarrow> readi st ip off n = Inr (- 1, []))
     \<and> (off \<le> isize ip \<and> \<not> off + n < off \<and> inode_ok st ip \<longrightarrow>
          readi st ip off n =
            Inr (sint (min n (isize ip - off)),
                 take (unat (min n (isize ip - off))) (drop (unat off) (file_bytes st ip)))
          \<and> length (take (unat (min n (isize ip - off))) (drop (unat off) (file_bytes st ip)))
              = unat (min n (isize ip - off)))"
proof -
  have reject: "readi st ip off n = Inr (- 1, [])" if "off > isize ip \<or> off + n < off"
    using that assms by (auto simp: readi_def)
  have accept: "readi st ip off n =
            Inr (sint (min n (isize ip - off)),
                 take (unat (min n (isize ip - off))) (drop (unat off) (file_bytes st ip)))
          \<and> length (take (unat (min n (isize ip - off))) (drop (unat off) (file_bytes st ip)))
              = unat (min n (isize ip - off))"
    if a: "off \<le> isize ip \<and> \<not> off + n < off \<and> inode_ok st ip"
  proof -
    from a have le: "unat off \<le> unat (isize ip)" by (simp add: word_le_nat_alt)
    from a have g1: "\<not> isize ip < off" and g2: "\<not> off + n < off"
      by (auto simp: not_less)
    from a have "off \<le> off + n" by (auto simp: not_less)
    then have "unat off + unat n < 2 ^ 32"
      by (simp add: no_olen_add_nat)
    then have nw: "unat (off + n) = unat off + unat n"
      by (subst unat_add_lem[THEN iffD1]) simp_all
    have sub: "unat (isize ip - off) = unat (isize ip) - unat off"
      using a by (subst unat_sub) simp_all
    define cnt where "cnt = min n (isize ip - off)"
    have clip: "(if off + n > isize ip then isize ip - off else n) = cnt"
      using le by (auto simp: cnt_def min_def word_le_nat_alt word_less_nat_alt nw sub)
    have ucnt: "unat cnt = min (unat n) (unat (isize ip) - unat off)"
      by (simp add: cnt_def min_def word_le_nat_alt sub)
    from a have ok: "length (data ip) = 6" "unat (isize ip) \<le> 512 * length (file_blocks ip)"
      "\<forall>b \<in> set (file_blocks ip). length (bread st b) = 512"
      by (simp_all add: inode_ok_def BSIZE_def list_all_iff)
    have loop: "readi_loop st ip cnt 0 0 0 off 0 []
          = Inr (take (unat cnt) (drop (unat off) (file_bytes st ip)))"
    proof (rule readi_loop_correct[OF ok(1) ok(3) _ ok(2)])
      show "unat off + unat cnt \<le> unat (isize ip)" using ucnt le by simp
      show "0 < cnt \<longrightarrow> cursor_at ip 0 0 0 \<and> unat (0::uint) \<le> unat off div 512
           \<and> (0 < unat (0::uint) \<longrightarrow> unat (0::uint) = unat off div 512)"
        by (simp add: cursor_at_def blocks_before_def)
    qed simp_all
    have "readi st ip off n =
       (case readi_loop st ip (if off + n > isize ip then isize ip - off else n) 0 0 0 off 0 [] of
          Inl e \<Rightarrow> Inl e
        | Inr dst \<Rightarrow> Inr (sint (if off + n > isize ip then isize ip - off else n), dst))"
      using assms g1 g2 by (simp add: readi_def Let_def)
    then have r: "readi st ip off n =
            Inr (sint cnt, take (unat cnt) (drop (unat off) (file_bytes st ip)))"
      by (simp only: clip loop sum.case)
    have "unat off + unat cnt \<le> length (file_bytes st ip)"
      using ucnt le ok(2) length_file_bytes[OF ok(3)] by simp
    then have "length (take (unat cnt) (drop (unat off) (file_bytes st ip))) = unat cnt"
      by simp
    with r show ?thesis by (simp add: cnt_def)
  qed
  show ?thesis using reject accept by blast
qed

theorem readi_spec_witness:
  "locked one_block_file \<and> itype one_block_file \<noteq> T_DEV \<and> inode_ok img_state one_block_file \<and>
   readi img_state one_block_file 193 1 = Inr (- 1, []) \<and>
   readi img_state one_block_file 128 100 = Inr (64, img_dinode 2 0 67)"
proof -
  have h: "locked one_block_file" "itype one_block_file \<noteq> T_DEV" "inode_ok img_state one_block_file"
    "(193::uint) > isize one_block_file" "(128::uint) \<le> isize one_block_file"
    "\<not> (128::uint) + 100 < 128"
    by code_simp+
  have v: "sint (min (100::uint) (isize one_block_file - 128)) = 64"
    "take (unat (min (100::uint) (isize one_block_file - 128))) (drop (unat (128::uint)) (file_bytes img_state one_block_file)) = img_dinode 2 0 67"
    by code_simp+
  from readi_spec[OF h(1,2), of 193 1 img_state] h(4)
  have 1: "readi img_state one_block_file 193 1 = Inr (- 1, [])" by blast
  from readi_spec[OF h(1,2), of 128 100 img_state] h(3,5,6)
  have 2: "readi img_state one_block_file 128 100 = Inr (64, img_dinode 2 0 67)"
    by (simp only: v) blast
  show ?thesis using h(1,2,3) 1 2 by blast
qed



section \<open>Writing a file: results\<close>

subsection \<open>The shape of the trace\<close>

lemma appends_writes_refl [simp]: "appends_writes st st"
  by (simp add: appends_writes_def)


lemma appends_writes_trace:
  "trace st' = trace st \<Longrightarrow> appends_writes st st'"
  by (simp add: appends_writes_def)

lemma trace_buf_set [simp]: "trace (buf_set st b d) = trace st"
  and loglock_buf_set [simp]: "loglock (buf_set st b d) = loglock st"
  and inodefile_buf_set [simp]: "inodefile (buf_set st b d) = inodefile st"
  by (simp_all add: buf_set_def)

lemma trace_bwrite [simp]: "trace (bwrite st b) = trace st @ [Bwrite b (bread st b)]"
  and loglock_bwrite [simp]: "loglock (bwrite st b) = loglock st"
  and inodefile_bwrite [simp]: "inodefile (bwrite st b) = inodefile st"
  by (simp_all add: bwrite_def)

lemma write_log_meta_simps [simp]:
  "trace (write_log_meta st lg)
     = trace st @ [Bwrite (logstart (sb st))
                     (blk_put (bread st (logstart (sb st))) 0 (take LOGMETA lg))]"
  "loglock (write_log_meta st lg) = loglock st"
  "inodefile (write_log_meta st lg) = inodefile st"
  "sb (write_log_meta st lg) = sb st"
  by (simp_all add: write_log_meta_def Let_def)

























subsection \<open>Writing a file: the calls return on the small disk image\<close>



lemma nth_blk_put_in:
  "i < length bs \<Longrightarrow> k \<le> length d \<Longrightarrow> blk_put d k bs ! (k + i) = bs ! i"
  by (simp add: blk_put_def nth_append)














lemma inodefile_update_view [simp]:
  "bread (st\<lparr>inodefile := i\<rparr>) b = bread st b"
  "read_log_meta (st\<lparr>inodefile := i\<rparr>) = read_log_meta st"
  "log_open (st\<lparr>inodefile := i\<rparr>) k = log_open st k"
  by (simp_all add: bread_def read_log_meta_def log_open_def split: option.split)














section \<open>Reading and writing through a descriptor: results\<close>

text \<open>
  A length that is not positive is rejected before the buffer and the descriptor are
  looked at; a positive one reaches the file. On the process with one open pipe, reading
  four bytes returns 4, stores the bytes 1, 2, 3, 4 in the buffer and moves the head of the
  pipe.
\<close>

lemma sys_read_rejects_negative:
  "argint se 2 = Some n \<Longrightarrow> sint n < 0 \<Longrightarrow> sys_read se k = Inr (- 1, k)"
  by (simp add: sys_read_def split: option.split)

lemma sys_write_rejects_negative:
  "argint se 2 = Some n \<Longrightarrow> sint n < 0 \<Longrightarrow> sys_write se k = Inr (- 1, k)"
  by (simp add: sys_write_def split: option.split)

lemma sys_read_four_bytes:
  "(case sys_read (call_args 4) pipe_kernel of
      Inr (r, k') \<Rightarrow> (r, take 4 (drop 8 (umem k')), head (pipes k' ! 0))
    | Inl e \<Rightarrow> (0, [], 0)) = (4, [1, 2, 3, 4], 4)"
  by (simp add: sys_read_def call_args_def pipe_kernel_def NOFILE_def fileread_def
      piperead_def small_pipe_def mem_read_def mem_write_def)

text \<open>
  Claim C10: a \<open>read\<close> or \<open>write\<close> system call whose third argument \<open>n\<close> is 0 returns -1,
  as for a negative \<open>n\<close>, and leaves the kernel as it was: no byte is copied to or from the
  buffer, the pipe or the file, and no offset moves.
\<close>

theorem zero_length_rejected:
  "argint se 2 = Some 0 \<Longrightarrow> sys_read se k = Inr (- 1, k) \<and> sys_write se k = Inr (- 1, k)"
  by (simp add: sys_read_def sys_write_def split: option.split)

theorem zero_length_rejected_witness:
  "argint (call_args 0) 2 = Some 0 \<and>
   sys_read (call_args 0) pipe_kernel = Inr (- 1, pipe_kernel) \<and>
   sys_write (call_args 0) pipe_kernel = Inr (- 1, pipe_kernel)"
  using zero_length_rejected [of "call_args 0" pipe_kernel] by (simp add: call_args_def)

end
